(* ===== verification/Iroh_Prelude.thy ===== *)
theory Iroh_Prelude
  imports Main "HOL-Library.Word" "HOL-Library.Monad_Syntax"
begin

text \<open>
  The vocabulary shared by the component theories: the names of the machine
  types, Rust's \<^verbatim>\<open>Result\<close> as a sum type with the combinators the crate uses on it
  (\<^verbatim>\<open>?\<close>, \<^verbatim>\<open>map_err\<close>, \<^verbatim>\<open>collect::<Result<Vec<_>, _>>()\<close>), and asynchronous calls.

  An \<^verbatim>\<open>async fn\<close> of the wrapped library is a function from the state of the world
  to \<open>Some (result, new world)\<close>, or \<open>None\<close> when its future stays pending for
  ever.  The monad syntax of \<open>HOL-Library.Monad_Syntax\<close> on \<open>option\<close> then reads as
  \<^verbatim>\<open>.await\<close>.
\<close>

named_theorems result_simps
named_theorems async_simps

section \<open>Types\<close>

type_synonym u8 = "8 word"
type_synonym u16 = "16 word"
type_synonym u32 = "32 word"
type_synonym u64 = "64 word"
type_synonym u128 = "128 word"
type_synonym i32 = "32 word"
type_synonym bytes = "u8 list"

type_synonym ('w, 'a) async = "'w \<Rightarrow> ('a \<times> 'w) option"

text \<open>
  Rust's byte arrays \<^verbatim>\<open>[u8; N]\<close>: a vector whose length is part of the type.  \<open>to_vec\<close>
  forgets the length, \<open>slice_to_array\<close> is \<^verbatim>\<open><[u8; N]>::try_from(&[u8])\<close>, which fails
  exactly on a slice of another length.
\<close>

typedef (overloaded) ('n :: len) byte_array = "{bs :: bytes. length bs = LENGTH('n)}"
  morphisms to_vec array_of
  by (rule exI [of _ "replicate LENGTH('n) 0"]) simp

definition slice_to_array :: "bytes \<Rightarrow> unit + 'n :: len byte_array" where
  "slice_to_array bs = (if length bs = LENGTH('n) then Inr (array_of bs) else Inl ())"

lemma length_to_vec [simp]: "length (to_vec (a :: 'n :: len byte_array)) = LENGTH('n)"
  using to_vec [of a] by simp

lemma to_vec_array_of [simp]: "length bs = LENGTH('n) \<Longrightarrow> to_vec (array_of bs :: 'n :: len byte_array) = bs"
  by (simp add: array_of_inverse)

lemma slice_to_array_to_vec [simp]: "slice_to_array (to_vec a) = Inr a"
  by (simp add: slice_to_array_def to_vec_inverse)

lemma slice_to_array_Inr:
  "slice_to_array bs = Inr (a :: 'n :: len byte_array) \<longleftrightarrow> bs = to_vec a"
  by (auto simp: slice_to_array_def to_vec_inverse)

lemma slice_to_array_Inl:
  "slice_to_array bs = (Inl u :: unit + 'n :: len byte_array) \<longleftrightarrow> length bs \<noteq> LENGTH('n)"
  by (simp add: slice_to_array_def)

section \<open>Results\<close>

definition is_ok :: "'e + 'a \<Rightarrow> bool" where
  "is_ok r = (case r of Inl _ \<Rightarrow> False | Inr _ \<Rightarrow> True)"

definition is_err :: "'e + 'a \<Rightarrow> bool" where
  "is_err r = (\<not> is_ok r)"

definition map_err :: "('e \<Rightarrow> 'f) \<Rightarrow> 'e + 'a \<Rightarrow> 'f + 'a" where
  "map_err f r = (case r of Inl e \<Rightarrow> Inl (f e) | Inr x \<Rightarrow> Inr x)"

definition map_ok :: "('a \<Rightarrow> 'b) \<Rightarrow> 'e + 'a \<Rightarrow> 'e + 'b" where
  "map_ok f r = (case r of Inl e \<Rightarrow> Inl e | Inr x \<Rightarrow> Inr (f x))"

text \<open>The \<^verbatim>\<open>?\<close> operator: leave with the error or go on with the value.\<close>

definition res_bind :: "'e + 'a \<Rightarrow> ('a \<Rightarrow> 'e + 'b) \<Rightarrow> 'e + 'b" where
  "res_bind r k = (case r of Inl e \<Rightarrow> Inl e | Inr x \<Rightarrow> k x)"

lemma is_ok_simps [simp]: "is_ok (Inr x)" "\<not> is_ok (Inl e)"
  by (simp_all add: is_ok_def)

lemma is_err_simps [simp]: "is_err (Inl e)" "\<not> is_err (Inr x)"
  by (simp_all add: is_err_def)

lemma is_ok_iff: "is_ok r \<longleftrightarrow> (\<exists>x. r = Inr x)"
  by (cases r) auto

lemma is_err_iff: "is_err r \<longleftrightarrow> (\<exists>e. r = Inl e)"
  by (cases r) auto

lemma map_err_simps [simp]: "map_err f (Inl e) = Inl (f e)" "map_err f (Inr x) = Inr x"
  by (simp_all add: map_err_def)

lemma map_ok_simps [simp]: "map_ok f (Inl e) = Inl e" "map_ok f (Inr x) = Inr (f x)"
  by (simp_all add: map_ok_def)

lemma res_bind_simps [simp]: "res_bind (Inl e) k = Inl e" "res_bind (Inr x) k = k x"
  by (simp_all add: res_bind_def)

lemma map_err_eq_Inr [result_simps]: "map_err f r = Inr x \<longleftrightarrow> r = Inr x"
  by (cases r) auto

lemma map_err_eq_Inl [result_simps]: "map_err f r = Inl e \<longleftrightarrow> (\<exists>e'. r = Inl e' \<and> e = f e')"
  by (cases r) auto

lemma Inr_eq_map_err [result_simps]: "Inr x = map_err f r \<longleftrightarrow> r = Inr x"
  by (cases r) auto

lemma res_bind_eq_Inr [result_simps]: "res_bind r k = Inr y \<longleftrightarrow> (\<exists>x. r = Inr x \<and> k x = Inr y)"
  by (cases r) auto

lemma res_bind_eq_Inl [result_simps]:
  "res_bind r k = Inl e \<longleftrightarrow> r = Inl e \<or> (\<exists>x. r = Inr x \<and> k x = Inl e)"
  by (cases r) auto

text \<open>
  Stepwise refinement of a chain of \<^verbatim>\<open>?\<close>: when the first step refines its abstract
  counterpart (same errors, matching values) and the rest does on matching values, so
  does the whole.
\<close>

lemma res_bind_refine:
  assumes "map_ok v r = map_ok f s"
    and "\<And>b y. r = Inr b \<Longrightarrow> s = Inr y \<Longrightarrow> v b = f y \<Longrightarrow> map_ok v' (k b) = k' y"
  shows "map_ok v' (res_bind r k) = res_bind s k'"
  using assms by (cases r; cases s) auto

text \<open>
  \<^verbatim>\<open>iter.map(f).collect::<Result<Vec<_>, _>>()\<close>: the values of all elements, or the
  error of the first element that fails; no element after it is looked at.
\<close>

fun collect_res :: "('a \<Rightarrow> 'e + 'b) \<Rightarrow> 'a list \<Rightarrow> 'e + 'b list" where
  "collect_res f [] = Inr []"
| "collect_res f (x # xs) =
     (case f x of Inl e \<Rightarrow> Inl e
      | Inr y \<Rightarrow> (case collect_res f xs of Inl e \<Rightarrow> Inl e | Inr ys \<Rightarrow> Inr (y # ys)))"

lemma collect_res_Inr_iff:
  "collect_res f xs = Inr ys \<longleftrightarrow> list_all2 (\<lambda>x y. f x = Inr y) xs ys"
proof (induction xs arbitrary: ys)
  case Nil
  then show ?case by auto
next
  case (Cons x xs)
  show ?case
  proof (cases "f x")
    case (Inl e)
    then show ?thesis by (auto simp: list_all2_Cons1)
  next
    case (Inr y)
    have "collect_res f (x # xs) = Inr ys \<longleftrightarrow> (\<exists>zs. collect_res f xs = Inr zs \<and> ys = y # zs)"
      using Inr by (auto split: sum.splits)
    then show ?thesis using Inr Cons.IH by (auto simp: list_all2_Cons1)
  qed
qed

lemma collect_res_Inl_iff:
  "collect_res f xs = Inl e \<longleftrightarrow>
     (\<exists>us x vs. xs = us @ x # vs \<and> (\<forall>u \<in> set us. is_ok (f u)) \<and> f x = Inl e)"
proof (induction xs)
  case Nil
  then show ?case by simp
next
  case (Cons x xs)
  have split: "(\<exists>us z vs. x # xs = us @ z # vs \<and> (\<forall>u \<in> set us. is_ok (f u)) \<and> f z = Inl e) \<longleftrightarrow>
      f x = Inl e \<or> is_ok (f x) \<and> (\<exists>us z vs. xs = us @ z # vs \<and> (\<forall>u \<in> set us. is_ok (f u)) \<and> f z = Inl e)"
    (is "?L \<longleftrightarrow> ?R")
  proof
    assume ?L
    then obtain us z vs where "x # xs = us @ z # vs" "\<forall>u \<in> set us. is_ok (f u)" "f z = Inl e"
      by blast
    then show ?R by (cases us) auto
  next
    assume ?R
    then show ?L
    proof (elim disjE conjE exE)
      assume "f x = Inl e"
      then have "x # xs = [] @ x # xs \<and> (\<forall>u \<in> set []. is_ok (f u)) \<and> f x = Inl e" by simp
      then show ?L by blast
    next
      fix us z vs
      assume "is_ok (f x)" "xs = us @ z # vs" "\<forall>u \<in> set us. is_ok (f u)" "f z = Inl e"
      then have "x # xs = (x # us) @ z # vs \<and> (\<forall>u \<in> set (x # us). is_ok (f u)) \<and> f z = Inl e"
        by simp
      then show ?L by blast
    qed
  qed
  show ?case
    unfolding split Cons.IH [symmetric] by (cases "f x") (auto split: sum.splits)
qed

lemma collect_res_map:
  assumes "\<And>x. x \<in> set xs \<Longrightarrow> f (g x) = Inr (h x)"
  shows "collect_res f (map g xs) = Inr (map h xs)"
  using assms by (induction xs) auto

lemma collect_res_is_ok: "is_ok (collect_res f xs) \<longleftrightarrow> (\<forall>x \<in> set xs. is_ok (f x))"
  by (induction xs) (auto simp: is_ok_def split: sum.splits)

lemma collect_res_set: "collect_res f xs = Inr ys \<Longrightarrow> set ys = {y. \<exists>x \<in> set xs. f x = Inr y}"
  by (induction xs arbitrary: ys) (auto split: sum.splits)

lemma map_ok_eq_Inr [result_simps]: "map_ok f r = Inr y \<longleftrightarrow> (\<exists>x. r = Inr x \<and> y = f x)"
  by (cases r) auto

section \<open>Asynchronous calls\<close>

text \<open>
  \<open>await_try act k\<close> is \<^verbatim>\<open>let x = act.await?; k(x)\<close> and \<open>await_map act f\<close> is
  \<^verbatim>\<open>f(act.await)\<close>.
\<close>

definition await_try :: "('w, 'e + 'a) async \<Rightarrow> ('a \<Rightarrow> ('w, 'e + 'b) async) \<Rightarrow> ('w, 'e + 'b) async" where
  "await_try act k w =
     do {
       (r, w') \<leftarrow> act w;
       (case r of Inl e \<Rightarrow> Some (Inl e, w') | Inr x \<Rightarrow> k x w')
     }"

definition await_map :: "('w, 'a) async \<Rightarrow> ('a \<Rightarrow> 'b) \<Rightarrow> ('w, 'b) async" where
  "await_map act f w = do { (r, w') \<leftarrow> act w; Some (f r, w') }"

definition ready :: "'a \<Rightarrow> ('w, 'a) async" where
  "ready x w = Some (x, w)"

lemma ready_simp [simp]: "ready x w = Some (x, w)"
  by (simp add: ready_def)

lemma await_map_eq_Some [async_simps]:
  "await_map act f w = Some (y, w') \<longleftrightarrow> (\<exists>x. act w = Some (x, w') \<and> y = f x)"
  by (auto simp: await_map_def bind_eq_Some_conv)

lemma await_map_eq_None [async_simps]: "await_map act f w = None \<longleftrightarrow> act w = None"
  by (cases "act w") (auto simp: await_map_def)

lemma await_map_Some [simp]: "act w = Some (x, w') \<Longrightarrow> await_map act f w = Some (f x, w')"
  by (simp add: await_map_def)

lemma await_try_Inr [simp]: "act w = Some (Inr x, w') \<Longrightarrow> await_try act k w = k x w'"
  by (simp add: await_try_def)

lemma await_try_Inl [simp]: "act w = Some (Inl e, w') \<Longrightarrow> await_try act k w = Some (Inl e, w')"
  by (simp add: await_try_def)

lemma await_try_None [simp]: "act w = None \<Longrightarrow> await_try act k w = None"
  by (simp add: await_try_def)

lemma await_try_eq_Some [async_simps]:
  "await_try act k w = Some (r, w') \<longleftrightarrow>
     (\<exists>e. act w = Some (Inl e, w') \<and> r = Inl e) \<or>
     (\<exists>x v. act w = Some (Inr x, v) \<and> k x v = Some (r, w'))"
proof (cases "act w")
  case None
  then show ?thesis by simp
next
  case (Some p)
  then show ?thesis by (cases p; cases "fst p") auto
qed

end
