(* ===== verification/Rust_Str.thy ===== *)
theory Rust_Str
  imports Iroh_Prelude
begin

unbundle bit_operations_syntax

text \<open>
  Rust's \<^verbatim>\<open>String\<close> as far as the crate uses it.  A \<^verbatim>\<open>String\<close> is a vector of bytes
  that is valid UTF-8, so the model uses HOL's \<open>string\<close>, one \<open>char\<close> per byte, with
  \<open>utf8_valid\<close> as the type's invariant.  \<^verbatim>\<open>as_bytes\<close> and \<^verbatim>\<open>into_bytes\<close> expose the
  bytes; \<^verbatim>\<open>String::from_utf8_lossy\<close> goes back, replacing each maximal ill-formed
  part by U+FFFD.  The decoder below follows the byte-range table of the standard
  library; what is valid is stated independently of it, by encoding Unicode scalar
  values.
\<close>

section \<open>Bytes and characters\<close>

definition byte_of_char :: "char \<Rightarrow> u8" where
  "byte_of_char c = of_nat (of_char c)"

definition char_of_byte :: "u8 \<Rightarrow> char" where
  "char_of_byte b = char_of (unat b)"

definition as_bytes :: "string \<Rightarrow> bytes" where
  "as_bytes s = map byte_of_char s"

definition into_bytes :: "string \<Rightarrow> bytes" where
  "into_bytes s = map byte_of_char s"

definition string_of_bytes :: "bytes \<Rightarrow> string" where
  "string_of_bytes bs = map char_of_byte bs"

lemma char_of_byte_of_char [simp]: "char_of_byte (byte_of_char c) = c"
  by (simp add: char_of_byte_def byte_of_char_def unat_of_nat)

lemma byte_of_char_of_byte [simp]: "byte_of_char (char_of_byte b) = b"
proof -
  have "unat b < 256" using unsigned_less [of b, where ?'a = nat] by simp
  then show ?thesis by (simp add: char_of_byte_def byte_of_char_def)
qed

lemma string_of_bytes_as_bytes [simp]: "string_of_bytes (as_bytes s) = s"
  by (simp add: string_of_bytes_def as_bytes_def map_idI)

lemma as_bytes_string_of_bytes [simp]: "as_bytes (string_of_bytes bs) = bs"
  by (simp add: string_of_bytes_def as_bytes_def map_idI)

lemma into_bytes_as_bytes: "into_bytes s = as_bytes s"
  by (simp add: into_bytes_def as_bytes_def)

lemma string_of_bytes_append: "string_of_bytes (xs @ ys) = string_of_bytes xs @ string_of_bytes ys"
  by (simp add: string_of_bytes_def)

lemma as_bytes_append: "as_bytes (s @ t) = as_bytes s @ as_bytes t"
  by (simp add: as_bytes_def)

lemma as_bytes_inject [simp]: "as_bytes s = as_bytes t \<longleftrightarrow> s = t"
  by (metis string_of_bytes_as_bytes)

lemma string_of_bytes_Nil [simp]: "string_of_bytes [] = []"
  by (simp add: string_of_bytes_def)

section \<open>The encoding of scalar values\<close>

definition is_scalar :: "nat \<Rightarrow> bool" where
  "is_scalar c \<longleftrightarrow> c < 0xD800 \<or> 0xE000 \<le> c \<and> c < 0x110000"

definition encode_scalar :: "nat \<Rightarrow> bytes" where
  "encode_scalar c =
     map of_nat
      (if c < 0x80 then [c]
       else if c < 0x800 then [0xC0 + c div 64, 0x80 + c mod 64]
       else if c < 0x10000 then [0xE0 + c div 4096, 0x80 + c div 64 mod 64, 0x80 + c mod 64]
       else [0xF0 + c div 262144, 0x80 + c div 4096 mod 64, 0x80 + c div 64 mod 64, 0x80 + c mod 64])"

definition encode_utf8 :: "nat list \<Rightarrow> bytes" where
  "encode_utf8 cs = concat (map encode_scalar cs)"

text \<open>The invariant of \<^verbatim>\<open>String\<close>: its bytes encode some sequence of scalar values.\<close>

definition utf8_valid :: "string \<Rightarrow> bool" where
  "utf8_valid s \<longleftrightarrow> (\<exists>cs. list_all is_scalar cs \<and> as_bytes s = encode_utf8 cs)"

section \<open>The decoder\<close>

definition safe_get :: "bytes \<Rightarrow> nat \<Rightarrow> u8" where
  "safe_get bs i = (if i < length bs then bs ! i else 0)"

definition utf8_char_width :: "u8 \<Rightarrow> nat" where
  "utf8_char_width b =
     (if b < 0x80 then 1
      else if 0xC2 \<le> b \<and> b \<le> 0xDF then 2
      else if 0xE0 \<le> b \<and> b \<le> 0xEF then 3
      else if 0xF0 \<le> b \<and> b \<le> 0xF4 then 4
      else 0)"

definition is_cont :: "u8 \<Rightarrow> bool" where
  "is_cont b \<longleftrightarrow> b AND 192 = 128"

definition second_of_3 :: "u8 \<Rightarrow> u8 \<Rightarrow> bool" where
  "second_of_3 b c \<longleftrightarrow>
     b = 0xE0 \<and> 0xA0 \<le> c \<and> c \<le> 0xBF
     \<or> 0xE1 \<le> b \<and> b \<le> 0xEC \<and> 0x80 \<le> c \<and> c \<le> 0xBF
     \<or> b = 0xED \<and> 0x80 \<le> c \<and> c \<le> 0x9F
     \<or> 0xEE \<le> b \<and> b \<le> 0xEF \<and> 0x80 \<le> c \<and> c \<le> 0xBF"

definition second_of_4 :: "u8 \<Rightarrow> u8 \<Rightarrow> bool" where
  "second_of_4 b c \<longleftrightarrow>
     b = 0xF0 \<and> 0x90 \<le> c \<and> c \<le> 0xBF
     \<or> 0xF1 \<le> b \<and> b \<le> 0xF3 \<and> 0x80 \<le> c \<and> c \<le> 0xBF
     \<or> b = 0xF4 \<and> 0x80 \<le> c \<and> c \<le> 0x8F"

text \<open>
  One step of the decoder on non-empty input: whether the bytes at the front are a
  well-formed character, and how many bytes the step consumes.
\<close>

definition utf8_next :: "bytes \<Rightarrow> bool \<times> nat" where
  "utf8_next bs =
     (let b = safe_get bs 0; w = utf8_char_width b in
      if w = 1 then (True, 1)
      else if w = 2 then (if is_cont (safe_get bs 1) then (True, 2) else (False, 1))
      else if w = 3 then
        (if \<not> second_of_3 b (safe_get bs 1) then (False, 1)
         else if \<not> is_cont (safe_get bs 2) then (False, 2) else (True, 3))
      else if w = 4 then
        (if \<not> second_of_4 b (safe_get bs 1) then (False, 1)
         else if \<not> is_cont (safe_get bs 2) then (False, 2)
         else if \<not> is_cont (safe_get bs 3) then (False, 3) else (True, 4))
      else (False, 1))"

definition replacement_char :: bytes where
  "replacement_char = [0xEF, 0xBF, 0xBD]"

lemma utf8_next_pos: "0 < snd (utf8_next bs)"
  by (simp add: utf8_next_def Let_def)

function lossy_bytes :: "bytes \<Rightarrow> bytes" where
  "lossy_bytes bs =
     (if bs = [] then []
      else (case utf8_next bs of
              (ok, n) \<Rightarrow> (if ok then take n bs else replacement_char) @ lossy_bytes (drop n bs)))"
  by pat_completeness auto
termination
proof (relation "measure length", goal_cases)
  case 1
  show ?case by simp
next
  case prems: (2 bs ok n)
  then have "0 < n" using utf8_next_pos [of bs] by (metis snd_conv)
  with prems(1) show ?case by simp
qed

declare lossy_bytes.simps [simp del]

definition from_utf8_lossy :: "bytes \<Rightarrow> string" where
  "from_utf8_lossy bs = string_of_bytes (lossy_bytes bs)"

section \<open>Facts about the decoder\<close>

lemma is_cont_iff: "is_cont b \<longleftrightarrow> 128 \<le> unat b \<and> unat b < 192"
proof -
  have "\<forall>b :: u8. (b AND 192 = 128) = (128 \<le> unat b \<and> unat b < 192)"
    by code_simp
  then show ?thesis by (simp add: is_cont_def)
qed

lemmas byte_order = word_le_nat_alt word_less_nat_alt word_unat_eq_iff

lemma safe_get_simps [simp]:
  "safe_get (b # bs) 0 = b"
  "safe_get (b # bs) (Suc i) = safe_get bs i"
  "safe_get [] i = 0"
  by (simp_all add: safe_get_def)

lemma unat_byte [simp]: "n < 256 \<Longrightarrow> unat (of_nat n :: u8) = n"
  by (simp add: unat_of_nat)

text \<open>The four well-formed shapes of a character, with the byte ranges read as numbers.\<close>

lemma utf8_char_width_iff:
  "utf8_char_width b = 1 \<longleftrightarrow> unat b < 128"
  "utf8_char_width b = 2 \<longleftrightarrow> 194 \<le> unat b \<and> unat b \<le> 223"
  "utf8_char_width b = 3 \<longleftrightarrow> 224 \<le> unat b \<and> unat b \<le> 239"
  "utf8_char_width b = 4 \<longleftrightarrow> 240 \<le> unat b \<and> unat b \<le> 244"
  by (auto simp: utf8_char_width_def byte_order)

lemma second_of_3_iff:
  "second_of_3 b c \<longleftrightarrow> 224 \<le> unat b \<and> unat b \<le> 239 \<and> 128 \<le> unat c \<and> unat c < 192 \<and>
     (unat b = 224 \<longrightarrow> 160 \<le> unat c) \<and> (unat b = 237 \<longrightarrow> unat c < 160)"
  by (auto simp: second_of_3_def byte_order)

lemma second_of_4_iff:
  "second_of_4 b c \<longleftrightarrow> 240 \<le> unat b \<and> unat b \<le> 244 \<and> 128 \<le> unat c \<and> unat c < 192 \<and>
     (unat b = 240 \<longrightarrow> 144 \<le> unat c) \<and> (unat b = 244 \<longrightarrow> unat c < 144)"
  by (auto simp: second_of_4_def byte_order)

lemma utf8_next_shapes:
  "utf8_char_width b = 1 \<Longrightarrow> utf8_next (b # r) = (True, 1)"
  "utf8_char_width b = 2 \<Longrightarrow> is_cont c \<Longrightarrow> utf8_next (b # c # r) = (True, 2)"
  "utf8_char_width b = 3 \<Longrightarrow> second_of_3 b c \<Longrightarrow> is_cont d \<Longrightarrow> utf8_next (b # c # d # r) = (True, 3)"
  "utf8_char_width b = 4 \<Longrightarrow> second_of_4 b c \<Longrightarrow> is_cont d \<Longrightarrow> is_cont e \<Longrightarrow>
     utf8_next (b # c # d # e # r) = (True, 4)"
  by (simp_all add: utf8_next_def safe_get_def)

lemma encode_scalar_cases:
  assumes "is_scalar c"
  obtains (one) "c < 0x80" "encode_scalar c = [of_nat c]"
  | (two) "0x80 \<le> c" "c < 0x800" "encode_scalar c = [of_nat (0xC0 + c div 64), of_nat (0x80 + c mod 64)]"
  | (three) "0x800 \<le> c" "c < 0x10000" "\<not> (0xD800 \<le> c \<and> c < 0xE000)"
      "encode_scalar c = [of_nat (0xE0 + c div 4096), of_nat (0x80 + c div 64 mod 64), of_nat (0x80 + c mod 64)]"
  | (four) "0x10000 \<le> c" "c < 0x110000"
      "encode_scalar c = [of_nat (0xF0 + c div 262144), of_nat (0x80 + c div 4096 mod 64),
         of_nat (0x80 + c div 64 mod 64), of_nat (0x80 + c mod 64)]"
proof -
  have "c < 0x110000" "\<not> (0xD800 \<le> c \<and> c < 0xE000)" using assms by (auto simp: is_scalar_def)
  moreover have "c < 0x80 \<or> 0x80 \<le> c \<and> c < 0x800 \<or> 0x800 \<le> c \<and> c < 0x10000 \<or> 0x10000 \<le> c"
    by linarith
  ultimately show thesis
    using that by (auto simp: encode_scalar_def simp del: of_nat_add)
qed

lemma utf8_next_encode:
  assumes "is_scalar c"
  shows "utf8_next (encode_scalar c @ rest) = (True, length (encode_scalar c))"
  using assms
proof (cases rule: encode_scalar_cases)
  case one
  then have "utf8_char_width (of_nat c) = 1" by (subst utf8_char_width_iff) simp
  then show ?thesis by (simp add: one utf8_next_shapes)
next
  case two
  have "utf8_char_width (of_nat (0xC0 + c div 64)) = 2" "is_cont (of_nat (0x80 + c mod 64))"
    using two by (auto simp: utf8_char_width_iff is_cont_iff simp del: of_nat_add)
  then show ?thesis by (simp add: two utf8_next_shapes del: of_nat_add)
next
  case three
  have "c div 4096 < 16" "c div 4096 = 0 \<Longrightarrow> 32 \<le> c div 64 mod 64"
    "c div 4096 = 13 \<Longrightarrow> c div 64 mod 64 < 32"
    using three(1-3) div_mult_mod_eq [of "c div 64" 64] div_mult2_eq [of c 64 64]
    by (simp_all, linarith+)
  then have "utf8_char_width (of_nat (0xE0 + c div 4096)) = 3"
    "second_of_3 (of_nat (0xE0 + c div 4096)) (of_nat (0x80 + c div 64 mod 64))"
    "is_cont (of_nat (0x80 + c mod 64))"
    by (auto simp: utf8_char_width_iff is_cont_iff second_of_3_iff simp del: of_nat_add)
  then show ?thesis by (simp add: three utf8_next_shapes del: of_nat_add)
next
  case four
  have "c div 262144 < 5" "c div 262144 = 0 \<Longrightarrow> 16 \<le> c div 4096 mod 64"
    "c div 262144 = 4 \<Longrightarrow> c div 4096 mod 64 < 16"
    using four(1,2) div_mult_mod_eq [of "c div 4096" 64] div_mult2_eq [of c 4096 64]
    by (simp_all, linarith+)
  then have "utf8_char_width (of_nat (0xF0 + c div 262144)) = 4"
    "second_of_4 (of_nat (0xF0 + c div 262144)) (of_nat (0x80 + c div 4096 mod 64))"
    "is_cont (of_nat (0x80 + c div 64 mod 64))" "is_cont (of_nat (0x80 + c mod 64))"
    by (auto simp: utf8_char_width_iff is_cont_iff second_of_4_iff simp del: of_nat_add)
  then show ?thesis by (simp add: four utf8_next_shapes del: of_nat_add)
qed

text \<open>Base-64 digits, and the scalar value a well-formed sequence stands for.\<close>

lemma digit64:
  fixes a u :: nat
  assumes "u < 64"
  shows "(a * 64 + u) div 64 = a" "(a * 64 + u) mod 64 = u"
    "(a * 64 + u) div 4096 = a div 64" "(a * 64 + u) div 262144 = a div 4096"
proof -
  show *: "(a * 64 + u) div 64 = a" "(a * 64 + u) mod 64 = u"
    using assms by simp_all
  have "n div 4096 = n div 64 div 64" "n div 262144 = n div 64 div 4096" for n :: nat
    by (simp_all add: div_mult2_eq [symmetric])
  with * show "(a * 64 + u) div 4096 = a div 64" "(a * 64 + u) div 262144 = a div 4096"
    by simp_all
qed

lemma encode_scalar_two:
  assumes "2 \<le> x" "x < 32" "y < 64"
  shows "is_scalar (x * 64 + y)" "encode_scalar (x * 64 + y) = [of_nat (192 + x), of_nat (128 + y)]"
proof -
  have "(x * 64 + y) div 64 = x" "(x * 64 + y) mod 64 = y" "x * 64 + y < 0x800" "\<not> x * 64 + y < 0x80"
    using assms by auto
  then show "is_scalar (x * 64 + y)" "encode_scalar (x * 64 + y) = [of_nat (192 + x), of_nat (128 + y)]"
    by (simp_all add: is_scalar_def encode_scalar_def del: of_nat_add)
qed

lemma encode_scalar_three:
  assumes "x < 16" "y < 64" "z < 64" "x = 0 \<Longrightarrow> 32 \<le> y" "x = 13 \<Longrightarrow> y < 32"
  defines "c \<equiv> (x * 64 + y) * 64 + z"
  shows "is_scalar c" "encode_scalar c = [of_nat (224 + x), of_nat (128 + y), of_nat (128 + z)]"
proof -
  have *: "c div 4096 = x" "c div 64 mod 64 = y" "c mod 64 = z"
    using assms(2,3) by (simp_all only: c_def digit64)
  have **: "c < 0x10000" "\<not> c < 0x800" "\<not> c < 0x80"
    using assms(1-4) by (auto simp: c_def)
  have "\<not> (0xD800 \<le> c \<and> c < 0xE000)"
    using assms(2,3,5) by (cases "x \<le> 12"; cases "x = 13") (auto simp: c_def)
  with ** show "is_scalar c" by (auto simp: is_scalar_def)
  show "encode_scalar c = [of_nat (224 + x), of_nat (128 + y), of_nat (128 + z)]"
    unfolding encode_scalar_def using * ** by (simp del: of_nat_add)
qed

lemma encode_scalar_four:
  assumes "x < 5" "y < 64" "z < 64" "u < 64" "x = 0 \<Longrightarrow> 16 \<le> y" "x = 4 \<Longrightarrow> y < 16"
  defines "c \<equiv> ((x * 64 + y) * 64 + z) * 64 + u"
  shows "is_scalar c"
    "encode_scalar c = [of_nat (240 + x), of_nat (128 + y), of_nat (128 + z), of_nat (128 + u)]"
proof -
  have *: "c div 262144 = x" "c div 4096 mod 64 = y" "c div 64 mod 64 = z" "c mod 64 = u"
    using assms(2-4) by (simp_all only: c_def digit64)
  have **: "\<not> c < 0x10000" "c < 0x110000"
    using assms(1-6) by (cases "x = 4"; cases "x = 0"; simp add: c_def)+
  then show "is_scalar c" by (auto simp: is_scalar_def)
  show "encode_scalar c = [of_nat (240 + x), of_nat (128 + y), of_nat (128 + z), of_nat (128 + u)]"
    unfolding encode_scalar_def using * ** by (simp del: of_nat_add)
qed

lemma unat_byte_minus: "k \<le> unat (b :: u8) \<Longrightarrow> of_nat (k + (unat b - k)) = b"
  by simp

lemma utf8_next_shape:
  assumes bs: "bs = b # r" and "utf8_next bs = (True, n)"
  obtains (one) "utf8_char_width b = 1" "n = 1"
    | (two) c r' where "utf8_char_width b = 2" "n = 2" "r = c # r'" "is_cont c"
    | (three) c d r' where "utf8_char_width b = 3" "n = 3" "r = c # d # r'" "second_of_3 b c" "is_cont d"
    | (four) c d e r' where "utf8_char_width b = 4" "n = 4" "r = c # d # e # r'" "second_of_4 b c"
        "is_cont d" "is_cont e"
proof -
  have zero: "\<not> is_cont 0" "\<not> second_of_3 b 0" "\<not> second_of_4 b 0"
    by (simp_all add: is_cont_iff second_of_3_iff second_of_4_iff)
  let ?c = "safe_get bs 1" and ?d = "safe_get bs 2" and ?e = "safe_get bs 3"
  have "1 < length bs" if "is_cont ?c \<or> second_of_3 b ?c \<or> second_of_4 b ?c"
    using that zero by (auto simp: safe_get_def split: if_splits)
  moreover have "2 < length bs" if "is_cont ?d" using that zero by (auto simp: safe_get_def split: if_splits)
  moreover have "3 < length bs" if "is_cont ?e" using that zero by (auto simp: safe_get_def split: if_splits)
  ultimately show thesis
    using assms(2) that bs
    by (auto simp: utf8_next_def Let_def safe_get_def neq_Nil_conv length_Suc_conv
        less_Suc_eq_le Suc_le_length_iff numeral_2_eq_2 numeral_3_eq_3 split: if_splits)
qed

lemma utf8_next_True:
  assumes "bs \<noteq> []" "utf8_next bs = (True, n)"
  shows "\<exists>c. is_scalar c \<and> take n bs = encode_scalar c \<and> n \<le> length bs"
proof -
  obtain b r where bs: "bs = b # r" using assms(1) by (cases bs) auto
  from this assms(2) show ?thesis
  proof (cases rule: utf8_next_shape)
    case one
    then have "unat b < 128" by (subst (asm) utf8_char_width_iff)
    then have "is_scalar (unat b)" "encode_scalar (unat b) = [b]"
      by (auto simp: is_scalar_def encode_scalar_def)
    with one bs show ?thesis by auto
  next
    case (two c r')
    note rng = two(1,4) [unfolded utf8_char_width_iff is_cont_iff]
    let ?x = "unat b - 192" and ?y = "unat c - 128"
    have "2 \<le> ?x" "?x < 32" "?y < 64" using rng by auto
    from encode_scalar_two [OF this] two rng bs show ?thesis
      by (intro exI [of _ "?x * 64 + ?y"]) (auto simp: unat_byte_minus simp del: of_nat_add)
  next
    case (three c d r')
    note rng = three(1,4,5) [unfolded utf8_char_width_iff is_cont_iff second_of_3_iff]
    let ?x = "unat b - 224" and ?y = "unat c - 128" and ?z = "unat d - 128"
    have "?x < 16" "?y < 64" "?z < 64" "?x = 0 \<Longrightarrow> 32 \<le> ?y" "?x = 13 \<Longrightarrow> ?y < 32" using rng by auto
    from encode_scalar_three [OF this] three rng bs show ?thesis
      by (intro exI [of _ "(?x * 64 + ?y) * 64 + ?z"]) (auto simp: unat_byte_minus simp del: of_nat_add)
  next
    case (four c d e r')
    note rng = four(1,4-6) [unfolded utf8_char_width_iff is_cont_iff second_of_4_iff]
    let ?x = "unat b - 240" and ?y = "unat c - 128" and ?z = "unat d - 128" and ?u = "unat e - 128"
    have "?x < 5" "?y < 64" "?z < 64" "?u < 64" "?x = 0 \<Longrightarrow> 16 \<le> ?y" "?x = 4 \<Longrightarrow> ?y < 16" using rng by auto
    from encode_scalar_four [OF this] four rng bs show ?thesis
      by (intro exI [of _ "((?x * 64 + ?y) * 64 + ?z) * 64 + ?u"])
        (auto simp: unat_byte_minus simp del: of_nat_add)
  qed
qed

section \<open>Round trip and validity\<close>

lemma encode_scalar_nonempty: "encode_scalar c \<noteq> []"
  by (simp add: encode_scalar_def)

lemma encode_utf8_simps [simp]:
  "encode_utf8 [] = []" "encode_utf8 (c # cs) = encode_scalar c @ encode_utf8 cs"
  by (simp_all add: encode_utf8_def)

lemma lossy_bytes_Nil [simp]: "lossy_bytes [] = []"
  by (simp add: lossy_bytes.simps)

lemma lossy_bytes_step:
  "bs \<noteq> [] \<Longrightarrow> utf8_next bs = (ok, n) \<Longrightarrow>
     lossy_bytes bs = (if ok then take n bs else replacement_char) @ lossy_bytes (drop n bs)"
  by (simp add: lossy_bytes.simps [of bs])

lemma lossy_bytes_encode: "list_all is_scalar cs \<Longrightarrow> lossy_bytes (encode_utf8 cs) = encode_utf8 cs"
proof (induction cs)
  case (Cons c cs)
  then have "utf8_next (encode_utf8 (c # cs)) = (True, length (encode_scalar c))"
    by (simp add: utf8_next_encode)
  from lossy_bytes_step [OF _ this] Cons show ?case
    by (simp add: encode_scalar_nonempty)
qed simp

lemma replacement_char_encode: "replacement_char = encode_scalar 0xFFFD" "is_scalar 0xFFFD"
  by (simp_all add: replacement_char_def encode_scalar_def is_scalar_def)

lemma lossy_bytes_valid: "\<exists>cs. list_all is_scalar cs \<and> lossy_bytes bs = encode_utf8 cs"
proof (induction bs rule: lossy_bytes.induct)
  case (1 bs)
  show ?case
  proof (cases "bs = []")
    case True
    then show ?thesis by (auto intro: exI [of _ "[]"])
  next
    case False
    obtain ok n where next': "utf8_next bs = (ok, n)" by fastforce
    with "1.IH" False obtain cs where cs: "list_all is_scalar cs" "lossy_bytes (drop n bs) = encode_utf8 cs"
      by fastforce
    obtain c where c: "is_scalar c" "(if ok then take n bs else replacement_char) = encode_scalar c"
      using utf8_next_True [OF False] next' replacement_char_encode by (cases ok) auto
    have "lossy_bytes bs = encode_utf8 (c # cs)"
      using lossy_bytes_step [OF False next'] c cs by simp
    with c cs show ?thesis by (intro exI [of _ "c # cs"]) simp
  qed
qed

lemma from_utf8_lossy_valid: "utf8_valid (from_utf8_lossy bs)"
  using lossy_bytes_valid [of bs] by (simp add: utf8_valid_def from_utf8_lossy_def)

lemma from_utf8_lossy_as_bytes: "from_utf8_lossy (as_bytes s) = s \<longleftrightarrow> utf8_valid s"
proof
  assume "from_utf8_lossy (as_bytes s) = s"
  then show "utf8_valid s" using from_utf8_lossy_valid [of "as_bytes s"] by simp
next
  assume "utf8_valid s"
  then show "from_utf8_lossy (as_bytes s) = s"
    by (auto simp: utf8_valid_def from_utf8_lossy_def lossy_bytes_encode
        dest: arg_cong [of _ _ string_of_bytes])
qed

lemma as_bytes_from_utf8_lossy: "as_bytes (from_utf8_lossy bs) = lossy_bytes bs"
  by (simp add: from_utf8_lossy_def)

text \<open>ASCII text is valid, so every literal of the crate is.\<close>

lemma utf8_valid_ascii:
  assumes "\<forall>c \<in> set s. (of_char c :: nat) < 128"
  shows "utf8_valid s"
proof -
  have "as_bytes s = encode_utf8 (map of_char s)"
    using assms by (induction s) (simp_all add: as_bytes_def byte_of_char_def encode_scalar_def)
  moreover have "list_all is_scalar (map of_char s)"
    using assms by (auto simp: list_all_iff is_scalar_def)
  ultimately show ?thesis by (auto simp: utf8_valid_def)
qed

lemma utf8_valid_append: "utf8_valid s \<Longrightarrow> utf8_valid t \<Longrightarrow> utf8_valid (s @ t)"
proof -
  assume "utf8_valid s" "utf8_valid t"
  then obtain cs ds where "list_all is_scalar cs" "as_bytes s = encode_utf8 cs"
    "list_all is_scalar ds" "as_bytes t = encode_utf8 ds"
    by (auto simp: utf8_valid_def)
  then show ?thesis
    unfolding utf8_valid_def by (intro exI [of _ "cs @ ds"]) (simp add: as_bytes_append encode_utf8_def)
qed

section \<open>Text codecs\<close>

text \<open>
  The crate passes values over the FFI as text or bytes in several places: it prints
  a value on one side and parses it again on the other.  The interface every such
  pair has: on the values of the domain, parsing what was printed gives the value
  back.  The lemmas are what the address, ticket and ALPN code needs of it.
\<close>

locale text_codec =
  fixes in_dom :: "'a \<Rightarrow> bool"
    and enc :: "'a \<Rightarrow> 't"
    and dec :: "'t \<Rightarrow> 'e + 'a"
  assumes dec_enc: "in_dom x \<Longrightarrow> dec (enc x) = Inr x"
begin

lemma enc_inj: "in_dom x \<Longrightarrow> in_dom y \<Longrightarrow> enc x = enc y \<longleftrightarrow> x = y"
  by (metis dec_enc sum.inject(2))

lemma collect_dec_enc: "(\<And>x. x \<in> set xs \<Longrightarrow> in_dom x) \<Longrightarrow> collect_res dec (map enc xs) = Inr xs"
  using collect_res_map [of xs dec enc id] by (simp add: dec_enc)

lemma collect_dec_enc_err:
  assumes "\<And>x. x \<in> set xs \<Longrightarrow> in_dom x" and "dec t = Inl e"
  shows "collect_res dec (map enc xs @ t # ts) = Inl e"
  unfolding collect_res_Inl_iff
  using assms dec_enc by (intro exI [of _ "map enc xs"]) (auto simp: is_ok_def)

end

interpretation utf8: text_codec utf8_valid as_bytes "\<lambda>bs. Inr (from_utf8_lossy bs)"
  by unfold_locales (simp add: from_utf8_lossy_as_bytes)

end
