(* ===== verification/Rust_Net.thy ===== *)
theory Rust_Net
  imports Rust_Str "HOL-Library.List_Lexorder" "HOL-Library.Countable"
begin

text \<open>
  \<^verbatim>\<open>std::net::SocketAddr\<close> with its \<^verbatim>\<open>FromStr\<close> and \<^verbatim>\<open>Display\<close>, which the crate uses to
  carry addresses over the FFI as text (\<^verbatim>\<open>ip.parse()\<close> in endpoint_addr.rs and
  config.rs, \<^verbatim>\<open>to_string\<close> in endpoint.rs and endpoint_addr.rs).  The parser and the
  printer are those of the standard library, function by function; the main result is
  that parsing a printed address gives the address back.
\<close>

section \<open>Addresses\<close>

datatype Ipv4Addr = Ipv4Addr u8 u8 u8 u8

datatype Ipv6Addr = Ipv6Addr u16 u16 u16 u16 u16 u16 u16 u16

record SocketAddrV4 =
  v4_ip :: Ipv4Addr
  v4_port :: u16

record SocketAddrV6 =
  v6_ip :: Ipv6Addr
  v6_port :: u16
  v6_flowinfo :: u32
  v6_scope_id :: u32

datatype SocketAddr = V4 SocketAddrV4 | V6 SocketAddrV6

fun segments :: "Ipv6Addr \<Rightarrow> u16 list" where
  "segments (Ipv6Addr a b c d e f g h) = [a, b, c, d, e, f, g, h]"

definition from_segments :: "u16 list \<Rightarrow> Ipv6Addr" where
  "from_segments xs = Ipv6Addr (xs ! 0) (xs ! 1) (xs ! 2) (xs ! 3) (xs ! 4) (xs ! 5) (xs ! 6) (xs ! 7)"

lemma from_segments_segments [simp]: "from_segments (segments ip) = ip"
  by (cases ip) (simp add: from_segments_def)

lemma length_segments [simp]: "length (segments ip) = 8"
  by (cases ip) simp

text \<open>
  The derived order of \<^verbatim>\<open>SocketAddr\<close> (\<^verbatim>\<open>#[derive(Ord)]\<close>): IPv4 before IPv6, then the fields
  in their order of declaration.
\<close>

fun sock_key :: "SocketAddr \<Rightarrow> nat list" where
  "sock_key (V4 a) = (case v4_ip a of Ipv4Addr p q r s \<Rightarrow> [0, unat p, unat q, unat r, unat s, unat (v4_port a)])"
| "sock_key (V6 a) = 1 # map unat (segments (v6_ip a)) @ [unat (v6_port a), unat (v6_flowinfo a), unat (v6_scope_id a)]"

lemma segments_inject: "segments a = segments b \<longleftrightarrow> a = b"
  by (metis from_segments_segments)

lemma sock_key_inject: "sock_key a = sock_key b \<longleftrightarrow> a = b"
proof
  have inj: "inj (unat :: u16 \<Rightarrow> nat)" by (simp add: inj_def word_unat_eq_iff)
  show "a = b" if "sock_key a = sock_key b"
    using that
    by (cases a; cases b)
      (auto simp: segments_inject inj_map_eq_map [OF inj] word_unat_eq_iff [symmetric]
        intro: SocketAddrV4.equality SocketAddrV6.equality split: Ipv4Addr.splits)
qed simp

instantiation SocketAddr :: linorder
begin

definition less_eq_SocketAddr :: "SocketAddr \<Rightarrow> SocketAddr \<Rightarrow> bool" where
  "a \<le> b \<longleftrightarrow> sock_key a \<le> sock_key b"

definition less_SocketAddr :: "SocketAddr \<Rightarrow> SocketAddr \<Rightarrow> bool" where
  "a < b \<longleftrightarrow> sock_key a < sock_key b"

instance
  by intro_classes
    (simp_all add: less_eq_SocketAddr_def less_SocketAddr_def less_le_not_le linear
      sock_key_inject [symmetric])

end

instance SocketAddr :: countable
  by (rule countable_classI [of "\<lambda>a. to_nat (sock_key a)"]) (simp add: sock_key_inject)

section \<open>Printing\<close>

fun nat_digits :: "nat \<Rightarrow> nat \<Rightarrow> nat list" where
  "nat_digits radix n =
     (if radix < 2 \<or> n < radix then [n] else nat_digits radix (n div radix) @ [n mod radix])"

declare nat_digits.simps [simp del]

definition digit_char :: "nat \<Rightarrow> char" where
  "digit_char d = (if d < 10 then char_of (48 + d) else char_of (87 + d))"

definition fmt_radix :: "nat \<Rightarrow> nat \<Rightarrow> string" where
  "fmt_radix radix n = map digit_char (nat_digits radix n)"

abbreviation fmt_dec :: "nat \<Rightarrow> string" where
  "fmt_dec \<equiv> fmt_radix 10"

abbreviation fmt_hex :: "nat \<Rightarrow> string" where
  "fmt_hex \<equiv> fmt_radix 16"

fun fmt_ipv4 :: "Ipv4Addr \<Rightarrow> string" where
  "fmt_ipv4 (Ipv4Addr a b c d) =
     fmt_dec (unat a) @ ''.'' @ fmt_dec (unat b) @ ''.'' @ fmt_dec (unat c) @ ''.'' @ fmt_dec (unat d)"

text \<open>The first longest run of zero segments, as (start, length).\<close>

fun longest_zeros :: "nat \<Rightarrow> nat \<times> nat \<Rightarrow> nat \<times> nat \<Rightarrow> u16 list \<Rightarrow> nat \<times> nat" where
  "longest_zeros i current longest [] = longest"
| "longest_zeros i current longest (x # xs) =
     (if x = 0 then
        (let cur = ((if snd current = 0 then i else fst current), snd current + 1) in
         longest_zeros (Suc i) cur (if snd longest < snd cur then cur else longest) xs)
      else longest_zeros (Suc i) (0, 0) longest xs)"

fun fmt_subslice :: "nat \<Rightarrow> u16 list \<Rightarrow> string" where
  "fmt_subslice i [] = []"
| "fmt_subslice i (x # xs) = (if 0 < i then '':'' else []) @ fmt_hex (unat x) @ fmt_subslice (Suc i) xs"

fun to_ipv4_mapped :: "Ipv6Addr \<Rightarrow> Ipv4Addr option" where
  "to_ipv4_mapped (Ipv6Addr a b c d e f g h) =
     (if a = 0 \<and> b = 0 \<and> c = 0 \<and> d = 0 \<and> e = 0 \<and> f = 0xFFFF
      then Some (Ipv4Addr (of_nat (unat g div 256)) (of_nat (unat g mod 256))
                          (of_nat (unat h div 256)) (of_nat (unat h mod 256)))
      else None)"

definition fmt_ipv6 :: "Ipv6Addr \<Rightarrow> string" where
  "fmt_ipv6 ip =
     (case to_ipv4_mapped ip of
        Some v4 \<Rightarrow> ''::ffff:'' @ fmt_ipv4 v4
      | None \<Rightarrow>
          (case longest_zeros 0 (0, 0) (0, 0) (segments ip) of
             (start, len) \<Rightarrow>
               if 1 < len
               then fmt_subslice 0 (take start (segments ip)) @ ''::'' @
                    fmt_subslice 0 (drop (start + len) (segments ip))
               else fmt_subslice 0 (segments ip)))"

fun SocketAddr_to_string :: "SocketAddr \<Rightarrow> string" where
  "SocketAddr_to_string (V4 a) = fmt_ipv4 (v4_ip a) @ '':'' @ fmt_dec (unat (v4_port a))"
| "SocketAddr_to_string (V6 a) =
     (if v6_scope_id a = 0
      then ''['' @ fmt_ipv6 (v6_ip a) @ '']:'' @ fmt_dec (unat (v6_port a))
      else ''['' @ fmt_ipv6 (v6_ip a) @ ''%'' @ fmt_dec (unat (v6_scope_id a)) @ '']:'' @
           fmt_dec (unat (v6_port a)))"

section \<open>Parsing\<close>

type_synonym 'a parser = "string \<Rightarrow> ('a \<times> string) option"

definition to_digit :: "nat \<Rightarrow> char \<Rightarrow> nat option" where
  "to_digit radix c =
     (let n = of_char c :: nat;
          d = (if 48 \<le> n \<and> n \<le> 57 then n - 48
               else if 97 \<le> n \<and> n \<le> 122 then n - 87
               else if 65 \<le> n \<and> n \<le> 90 then n - 55
               else radix)
      in if d < radix then Some d else None)"

fun read_given_char :: "char \<Rightarrow> unit parser" where
  "read_given_char c [] = None"
| "read_given_char c (x # xs) = (if x = c then Some ((), xs) else None)"

definition read_separator :: "char \<Rightarrow> nat \<Rightarrow> 'a parser \<Rightarrow> 'a parser" where
  "read_separator sep index inner s =
     (if 0 < index then do { (_, s') \<leftarrow> read_given_char sep s; inner s' } else inner s)"

text \<open>
  \<^verbatim>\<open>read_number\<close> in its two forms: with a maximal number of digits (the octets and the
  groups, checked against the type's range at the end) and without one (the port and
  the scope id, each step with checked arithmetic).
\<close>

fun digits_loop :: "nat \<Rightarrow> nat \<Rightarrow> nat \<Rightarrow> nat \<Rightarrow> string \<Rightarrow> (nat \<times> nat \<times> string) option" where
  "digits_loop radix max_digits acc cnt [] = Some (acc, cnt, [])"
| "digits_loop radix max_digits acc cnt (c # cs) =
     (case to_digit radix c of
        None \<Rightarrow> Some (acc, cnt, c # cs)
      | Some d \<Rightarrow>
          if max_digits < Suc cnt then None
          else digits_loop radix max_digits (acc * radix + d) (Suc cnt) cs)"

definition read_number_max :: "nat \<Rightarrow> nat \<Rightarrow> bool \<Rightarrow> nat \<Rightarrow> nat parser" where
  "read_number_max radix max_digits allow_zero_prefix tmax s =
     do {
       (v, cnt, rest) \<leftarrow> digits_loop radix max_digits 0 0 s;
       if cnt = 0 then None
       else if \<not> allow_zero_prefix \<and> take 1 s = ''0'' \<and> 1 < cnt then None
       else if v \<le> tmax then Some (v, rest) else None
     }"

fun checked_loop :: "nat \<Rightarrow> nat \<Rightarrow> nat \<Rightarrow> nat \<Rightarrow> string \<Rightarrow> (nat \<times> nat \<times> string) option" where
  "checked_loop radix tmax acc cnt [] = Some (acc, cnt, [])"
| "checked_loop radix tmax acc cnt (c # cs) =
     (case to_digit radix c of
        None \<Rightarrow> Some (acc, cnt, c # cs)
      | Some d \<Rightarrow>
          if tmax < acc * radix then None
          else if tmax < acc * radix + d then None
          else checked_loop radix tmax (acc * radix + d) (Suc cnt) cs)"

definition read_number_checked :: "nat \<Rightarrow> nat \<Rightarrow> nat parser" where
  "read_number_checked radix tmax s =
     do {
       (v, cnt, rest) \<leftarrow> checked_loop radix tmax 0 0 s;
       if cnt = 0 then None else Some (v, rest)
     }"

definition read_octet :: "nat parser" where
  "read_octet = read_number_max 10 3 False 255"

definition read_ipv4_addr :: "Ipv4Addr parser" where
  "read_ipv4_addr s =
     do {
       (a, s) \<leftarrow> read_separator CHR ''.'' 0 read_octet s;
       (b, s) \<leftarrow> read_separator CHR ''.'' 1 read_octet s;
       (c, s) \<leftarrow> read_separator CHR ''.'' 2 read_octet s;
       (d, s) \<leftarrow> read_separator CHR ''.'' 3 read_octet s;
       Some (Ipv4Addr (of_nat a) (of_nat b) (of_nat c) (of_nat d), s)
     }"

fun v4_groups :: "Ipv4Addr \<Rightarrow> u16 list" where
  "v4_groups (Ipv4Addr a b c d) = [of_nat (unat a * 256 + unat b), of_nat (unat c * 256 + unat d)]"

definition read_group :: "nat parser" where
  "read_group = read_number_max 16 4 True 65535"

text \<open>
  \<open>read_groups k i\<close> fills the remaining \<open>k\<close> slots starting at slot \<open>i\<close>: the groups
  read, whether they end in an embedded IPv4 address, and the rest of the input.
\<close>

fun read_groups :: "nat \<Rightarrow> nat \<Rightarrow> string \<Rightarrow> u16 list \<times> bool \<times> string" where
  "read_groups 0 i s = ([], False, s)"
| "read_groups (Suc k) i s =
     (case (if 0 < k then read_separator CHR '':'' i read_ipv4_addr s else None) of
        Some (v4, s') \<Rightarrow> (v4_groups v4, True, s')
      | None \<Rightarrow>
          (case read_separator CHR '':'' i read_group s of
             None \<Rightarrow> ([], False, s)
           | Some (g, s') \<Rightarrow>
               (case read_groups k (Suc i) s' of (gs, v4, s'') \<Rightarrow> (of_nat g # gs, v4, s''))))"

definition read_ipv6_addr :: "Ipv6Addr parser" where
  "read_ipv6_addr s =
     (case read_groups 8 0 s of
        (head, head_ipv4, s1) \<Rightarrow>
          if length head = 8 then Some (from_segments head, s1)
          else if head_ipv4 then None
          else do {
            (_, s2) \<leftarrow> read_given_char CHR '':'' s1;
            (_, s3) \<leftarrow> read_given_char CHR '':'' s2;
            (case read_groups (8 - (length head + 1)) 0 s3 of
               (tail, _, s4) \<Rightarrow>
                 Some (from_segments (head @ replicate (8 - length head - length tail) 0 @ tail), s4))
          })"

definition read_port :: "nat parser" where
  "read_port s = do { (_, s') \<leftarrow> read_given_char CHR '':'' s; read_number_checked 10 65535 s' }"

definition read_scope_id :: "nat parser" where
  "read_scope_id s = do { (_, s') \<leftarrow> read_given_char CHR ''%'' s; read_number_checked 10 4294967295 s' }"

definition read_socket_addr_v4 :: "SocketAddr parser" where
  "read_socket_addr_v4 s =
     do {
       (ip, s) \<leftarrow> read_ipv4_addr s;
       (port, s) \<leftarrow> read_port s;
       Some (V4 \<lparr>v4_ip = ip, v4_port = of_nat port\<rparr>, s)
     }"

definition read_socket_addr_v6 :: "SocketAddr parser" where
  "read_socket_addr_v6 s =
     do {
       (_, s) \<leftarrow> read_given_char CHR ''['' s;
       (ip, s) \<leftarrow> read_ipv6_addr s;
       let (scope, s) = (case read_scope_id s of Some r \<Rightarrow> r | None \<Rightarrow> (0, s));
       (_, s) \<leftarrow> read_given_char CHR '']'' s;
       (port, s) \<leftarrow> read_port s;
       Some (V6 \<lparr>v6_ip = ip, v6_port = of_nat port, v6_flowinfo = 0, v6_scope_id = of_nat scope\<rparr>, s)
     }"

definition read_socket_addr :: "SocketAddr parser" where
  "read_socket_addr s =
     (case read_socket_addr_v4 s of Some r \<Rightarrow> Some r | None \<Rightarrow> read_socket_addr_v6 s)"

datatype AddrParseError = AddrParseError_Socket

definition AddrParseError_to_string :: "AddrParseError \<Rightarrow> string" where
  "AddrParseError_to_string e = (case e of AddrParseError_Socket \<Rightarrow> ''invalid socket address syntax'')"

definition SocketAddr_parse :: "string \<Rightarrow> AddrParseError + SocketAddr" where
  "SocketAddr_parse s =
     (case read_socket_addr s of
        Some (a, []) \<Rightarrow> Inr a
      | _ \<Rightarrow> Inl AddrParseError_Socket)"

section \<open>Numbers\<close>

lemma nat_digits_bound: "1 < radix \<Longrightarrow> d \<in> set (nat_digits radix n) \<Longrightarrow> d < radix"
  by (induction radix n rule: nat_digits.induct) (subst (asm) (2) nat_digits.simps, auto split: if_splits)

lemma nat_digits_nonempty: "nat_digits radix n \<noteq> []"
  by (subst nat_digits.simps) simp

abbreviation horner :: "nat \<Rightarrow> nat \<Rightarrow> nat list \<Rightarrow> nat" where
  "horner radix \<equiv> foldl (\<lambda>a d. a * radix + d)"

lemma horner_nat_digits: "horner radix 0 (nat_digits radix n) = n"
proof (induction radix n rule: nat_digits.induct)
  case (1 radix n)
  then show ?case
    by (cases "radix < 2 \<or> n < radix") (simp_all add: nat_digits.simps [of radix n])
qed

lemma length_nat_digits:
  "1 < radix \<Longrightarrow> n < radix ^ k \<Longrightarrow> 0 < k \<Longrightarrow> length (nat_digits radix n) \<le> k"
proof (induction k arbitrary: n)
  case (Suc k)
  show ?case
  proof (cases "n < radix")
    case True
    then show ?thesis by (simp add: nat_digits.simps [of radix n])
  next
    case False
    then have "k \<noteq> 0" using Suc.prems by (cases k) auto
    moreover have "n div radix < radix ^ k"
      using Suc.prems by (simp add: less_mult_imp_div_less mult.commute)
    ultimately have "length (nat_digits radix (n div radix)) \<le> k"
      using Suc by simp
    with False Suc.prems show ?thesis by (simp add: nat_digits.simps [of radix n])
  qed
qed simp

lemma hd_nat_digits: "1 < radix \<Longrightarrow> hd (nat_digits radix n) = 0 \<Longrightarrow> n = 0"
proof (induction radix n rule: nat_digits.induct)
  case (1 radix n)
  show ?case
  proof (cases "n < radix")
    case True
    with "1.prems" show ?thesis by (simp add: nat_digits.simps [of radix n])
  next
    case False
    with "1.prems" have "hd (nat_digits radix (n div radix)) = 0"
      by (simp add: nat_digits.simps [of radix n] nat_digits_nonempty)
    with "1.IH" False "1.prems" have "n div radix = 0" by simp
    with False "1.prems" show ?thesis by (simp add: div_eq_0_iff)
  qed
qed

lemma to_digit_digit_char: "d < 16 \<Longrightarrow> to_digit radix (digit_char d) = (if d < radix then Some d else None)"
  by (simp add: to_digit_def digit_char_def)

lemma digit_char_neq: "d < 16 \<Longrightarrow> digit_char d = c \<Longrightarrow> to_digit 16 c = Some d"
  using to_digit_digit_char [of d 16] by auto

definition stops :: "nat \<Rightarrow> string \<Rightarrow> bool" where
  "stops radix s \<longleftrightarrow> (case s of [] \<Rightarrow> True | c # _ \<Rightarrow> to_digit radix c = None)"

lemma digits_loop_stops: "stops radix s \<Longrightarrow> digits_loop radix m acc cnt s = Some (acc, cnt, s)"
  by (cases s) (auto simp: stops_def)

lemma digits_loop_digits:
  "\<forall>d \<in> set ds. d < radix \<Longrightarrow> radix \<le> 16 \<Longrightarrow> stops radix rest \<Longrightarrow> cnt + length ds \<le> m \<Longrightarrow>
     digits_loop radix m acc cnt (map digit_char ds @ rest) = Some (horner radix acc ds, cnt + length ds, rest)"
  by (induction ds arbitrary: acc cnt) (auto simp: digits_loop_stops to_digit_digit_char)

lemma horner_mono: "0 < radix \<Longrightarrow> acc \<le> horner radix acc ds"
proof (induction ds arbitrary: acc)
  case (Cons d ds)
  have "acc \<le> acc * radix + d" using Cons.prems by (metis le_add1 le_trans mult.commute mult_le_mono1 nat_mult_1 One_nat_def Suc_leI)
  also have "\<dots> \<le> horner radix (acc * radix + d) ds" using Cons by simp
  finally show ?case by simp
qed simp

lemma checked_loop_digits:
  "\<forall>d \<in> set ds. d < radix \<Longrightarrow> 0 < radix \<Longrightarrow> radix \<le> 16 \<Longrightarrow> stops radix rest \<Longrightarrow> horner radix acc ds \<le> tmax \<Longrightarrow>
     checked_loop radix tmax acc cnt (map digit_char ds @ rest) = Some (horner radix acc ds, cnt + length ds, rest)"
proof (induction ds arbitrary: acc cnt)
  case Nil
  then show ?case by (cases rest) (auto simp: stops_def)
next
  case (Cons d ds)
  have "acc * radix + d \<le> tmax"
    using horner_mono [of radix "acc * radix + d" ds] Cons.prems by simp
  with Cons show ?case by (simp add: to_digit_digit_char)
qed

lemma read_number_checked_fmt:
  assumes "1 < radix" "radix \<le> 16" "n \<le> tmax" "stops radix rest"
  shows "read_number_checked radix tmax (fmt_radix radix n @ rest) = Some (n, rest)"
  using checked_loop_digits [of "nat_digits radix n" radix rest 0 tmax 0] assms nat_digits_bound
  by (auto simp: read_number_checked_def fmt_radix_def horner_nat_digits nat_digits_nonempty)

lemma read_number_max_fmt:
  assumes "1 < radix" "radix \<le> 16" "n \<le> tmax" "n < radix ^ m" "0 < m" "stops radix rest"
  shows "read_number_max radix m allow tmax (fmt_radix radix n @ rest) = Some (n, rest)"
proof -
  let ?ds = "nat_digits radix n"
  have bound: "\<forall>d \<in> set ?ds. d < radix" using assms nat_digits_bound by auto
  have loop: "digits_loop radix m 0 0 (fmt_radix radix n @ rest) = Some (n, length ?ds, rest)"
    using digits_loop_digits [OF bound, of rest 0 m 0] assms length_nat_digits
    by (simp add: fmt_radix_def horner_nat_digits)
  have nozero: "length ?ds \<le> 1" if "take 1 (fmt_radix radix n @ rest) = ''0''"
  proof -
    obtain d ds where ds: "?ds = d # ds" by (cases ?ds) (auto simp: nat_digits_nonempty)
    with that have "digit_char d = CHR ''0''" by (simp add: fmt_radix_def)
    moreover have "d < 16" using bound ds assms by auto
    ultimately have "d = 0" using digit_char_neq by (fastforce simp: to_digit_def)
    with ds hd_nat_digits [of radix n] assms have "n = 0" by simp
    with assms show ?thesis by (simp add: nat_digits.simps [of radix 0])
  qed
  show ?thesis
    unfolding read_number_max_def loop using assms nozero nat_digits_nonempty [of radix n] by auto
qed

section \<open>Addresses read back\<close>

lemma unat_u8_bound: "unat (a :: u8) \<le> 255" and unat_u16_bound: "unat (b :: u16) \<le> 65535"
  and unat_u32_bound: "unat (c :: u32) \<le> 4294967295"
  using unsigned_less [of a, where ?'a = nat] unsigned_less [of b, where ?'a = nat]
    unsigned_less [of c, where ?'a = nat]
  by simp_all

lemma stops_simps [simp]:
  "stops radix []" "stops 10 (CHR ''.'' # s)" "stops 10 (CHR '':'' # s)" "stops 16 (CHR '':'' # s)"
  "stops 10 (CHR '']'' # s)" "stops 16 (CHR '']'' # s)" "stops 10 (CHR ''%'' # s)" "stops 16 (CHR ''%'' # s)"
  by (simp_all add: stops_def to_digit_def)

lemma read_octet_fmt: "stops 10 rest \<Longrightarrow> read_octet (fmt_dec (unat (a :: u8)) @ rest) = Some (unat a, rest)"
  using read_number_max_fmt [of 10 "unat a" 255 3 rest False] unat_u8_bound [of a]
  by (simp add: read_octet_def)

lemma read_group_fmt: "stops 16 rest \<Longrightarrow> read_group (fmt_hex (unat (g :: u16)) @ rest) = Some (unat g, rest)"
  using read_number_max_fmt [of 16 "unat g" 65535 4 rest True] unat_u16_bound [of g]
  by (simp add: read_group_def)

lemma read_ipv4_addr_fmt: "stops 10 rest \<Longrightarrow> read_ipv4_addr (fmt_ipv4 ip @ rest) = Some (ip, rest)"
  by (cases ip) (simp add: read_ipv4_addr_def read_separator_def read_octet_fmt)

lemma read_port_fmt: "read_port (CHR '':'' # fmt_dec (unat (p :: u16))) = Some (unat p, [])"
  using read_number_checked_fmt [of 10 "unat p" 65535 "[]"] unat_u16_bound [of p]
  by (simp add: read_port_def)

lemma read_scope_id_fmt:
  "stops 10 rest \<Longrightarrow> read_scope_id (CHR ''%'' # fmt_dec (unat (p :: u32)) @ rest) = Some (unat p, rest)"
  using read_number_checked_fmt [of 10 "unat p" 4294967295 rest] unat_u32_bound [of p]
  by (simp add: read_scope_id_def)

lemma SocketAddr_parse_V4: "SocketAddr_parse (SocketAddr_to_string (V4 a)) = Inr (V4 a)"
  by (simp add: SocketAddr_parse_def read_socket_addr_def read_socket_addr_v4_def
      read_ipv4_addr_fmt read_port_fmt)

subsection \<open>Groups\<close>

text \<open>What can follow the groups of an address: the closing bracket, the scope id or a \<^verbatim>\<open>::\<close>.\<close>

definition group_end :: "string \<Rightarrow> bool" where
  "group_end s \<longleftrightarrow>
     (\<exists>r. s = CHR '']'' # r \<or> s = CHR ''%'' # r \<or> s = CHR '':'' # CHR '':'' # r)"

lemma group_end_stops: "group_end s \<Longrightarrow> stops 16 s" "group_end s \<Longrightarrow> stops 10 s"
  by (auto simp: group_end_def)

lemma read_octet_stops: "stops 10 s \<Longrightarrow> read_octet s = None"
  and read_group_stops: "stops 16 s \<Longrightarrow> read_group s = None"
  by (simp_all add: read_octet_def read_group_def read_number_max_def digits_loop_stops)

lemma read_ipv4_addr_stops: "stops 10 s \<Longrightarrow> read_ipv4_addr s = None"
  by (simp add: read_ipv4_addr_def read_separator_def read_octet_stops)

lemma read_groups_end: "group_end s \<Longrightarrow> read_groups k i s = ([], False, s)"
proof (cases k)
  case (Suc n)
  assume "group_end s"
  then have "read_separator CHR '':'' i read_ipv4_addr s = None"
    "read_separator CHR '':'' i read_group s = None"
    by (auto simp: group_end_def read_separator_def read_ipv4_addr_stops read_group_stops)
  then show ?thesis by (simp add: Suc)
qed simp

text \<open>
  A hexadecimal group is never taken for the start of an embedded IPv4 address: after
  its decimal digits no dot follows.
\<close>

definition no_dot :: "string \<Rightarrow> bool" where
  "no_dot s \<longleftrightarrow> (case s of [] \<Rightarrow> True | c # _ \<Rightarrow> c \<noteq> CHR ''.'')"

lemma digits_loop_no_dot:
  "\<forall>d \<in> set ds. d < 16 \<Longrightarrow> stops 10 rest \<Longrightarrow> no_dot rest \<Longrightarrow>
     digits_loop 10 m acc cnt (map digit_char ds @ rest) = Some (v, n, s) \<Longrightarrow> no_dot s"
proof (induction ds arbitrary: acc cnt)
  case Nil
  then show ?case by (simp add: digits_loop_stops)
next
  case (Cons d ds)
  have "digit_char d \<noteq> CHR ''.''"
    using Cons.prems(1) digit_char_neq [of d "CHR ''.''"] by (auto simp: to_digit_def)
  with Cons show ?case
    by (auto simp: to_digit_digit_char no_dot_def split: if_splits)
qed

lemma read_ipv4_addr_hex:
  assumes "stops 10 rest" "no_dot rest"
  shows "read_ipv4_addr (fmt_hex g @ rest) = None"
proof -
  have "no_dot s" if "read_octet (fmt_hex g @ rest) = Some (v, s)" for v s
    using that digits_loop_no_dot [of "nat_digits 16 g" rest 3 0 0] assms nat_digits_bound [of 16 _ g]
    by (auto simp: read_octet_def read_number_max_def fmt_radix_def bind_eq_Some_conv split: if_splits)
  moreover have "no_dot s \<Longrightarrow> read_given_char CHR ''.'' s = None" for s
    by (cases s) (auto simp: no_dot_def)
  ultimately show ?thesis
    by (auto simp: read_ipv4_addr_def read_separator_def bind_eq_None_conv split: prod.splits option.splits)
qed

lemma read_groups_fmt:
  "length gs \<le> k \<Longrightarrow> group_end rest \<Longrightarrow> read_groups k i (fmt_subslice i gs @ rest) = (gs, False, rest)"
proof (induction gs arbitrary: k i)
  case Nil
  then show ?case by (simp add: read_groups_end)
next
  case (Cons g gs)
  then obtain k' where k: "k = Suc k'" "length gs \<le> k'" by (cases k) auto
  let ?r = "fmt_subslice (Suc i) gs @ rest"
  have r: "stops 10 ?r" "stops 16 ?r" "no_dot ?r"
    using Cons.prems(2) by (cases gs; auto simp: group_end_def no_dot_def)+
  have "read_separator CHR '':'' i read_ipv4_addr (fmt_subslice i (g # gs) @ rest) = None"
    using r by (cases i) (simp_all add: read_separator_def read_ipv4_addr_hex)
  moreover have "read_separator CHR '':'' i read_group (fmt_subslice i (g # gs) @ rest) = Some (unat g, ?r)"
    using r by (cases i) (simp_all add: read_separator_def read_group_fmt)
  ultimately show ?case
    using Cons.IH [OF k(2) Cons.prems(2), of "Suc i"] k by (cases k') simp_all
qed

subsection \<open>The compressed run\<close>

definition zero_run :: "u16 list \<Rightarrow> nat \<times> nat \<Rightarrow> bool" where
  "zero_run xs r \<longleftrightarrow> fst r + snd r \<le> length xs \<and> (\<forall>j. fst r \<le> j \<and> j < fst r + snd r \<longrightarrow> xs ! j = 0)"

lemma zero_run_append: "zero_run xs r \<Longrightarrow> zero_run (xs @ ys) r"
  by (auto simp: zero_run_def nth_append)

lemma zero_run_longest:
  "zero_run ys longest \<Longrightarrow> zero_run ys current \<Longrightarrow> snd current \<noteq> 0 \<longrightarrow> fst current + snd current = length ys \<Longrightarrow>
     zero_run (ys @ xs) (longest_zeros (length ys) current longest xs)"
proof (induction xs arbitrary: ys current longest)
  case (Cons x xs)
  let ?cur = "(if snd current = 0 then length ys else fst current, snd current + 1)"
  show ?case
  proof (cases "x = 0")
    case True
    have cur: "zero_run (ys @ [x]) ?cur"
      using Cons.prems True by (auto simp: zero_run_def nth_append less_Suc_eq)
    show ?thesis
      using Cons.IH [of "ys @ [x]" "if snd longest < snd ?cur then ?cur else longest" ?cur]
        zero_run_append [OF Cons.prems(1), of "[x]"] cur Cons.prems(3) True
      by (auto simp: Let_def split: if_splits)
  next
    case False
    have "zero_run (ys @ [x]) (0, 0)" by (simp add: zero_run_def)
    with False Cons.IH [of "ys @ [x]" longest "(0, 0)"] zero_run_append [OF Cons.prems(1), of "[x]"]
    show ?thesis by simp
  qed
qed (simp add: zero_run_append)

lemma zero_run_split:
  assumes "zero_run xs (start, len)"
  shows "xs = take start xs @ replicate len 0 @ drop (start + len) xs"
proof -
  have "take len (drop start xs) = replicate len 0"
    using assms by (intro nth_equalityI) (auto simp: zero_run_def)
  then show ?thesis
    by (metis append_take_drop_id drop_drop add.commute)
qed

subsection \<open>IPv6 addresses\<close>

lemma read_ipv6_addr_plain:
  "group_end rest \<Longrightarrow> read_ipv6_addr (fmt_subslice 0 (segments ip) @ rest) = Some (ip, rest)"
  using read_groups_fmt [of "segments ip" 8 rest 0] by (simp add: read_ipv6_addr_def)

lemma read_ipv6_addr_compressed:
  assumes "length xs + len + length ys = 8" "1 < len" "group_end rest"
  shows "read_ipv6_addr (fmt_subslice 0 xs @ ''::'' @ fmt_subslice 0 ys @ rest) =
     Some (from_segments (xs @ replicate len 0 @ ys), rest)"
proof -
  have "group_end (CHR '':'' # CHR '':'' # fmt_subslice 0 ys @ rest)"
    by (simp add: group_end_def)
  then have "read_groups 8 0 (fmt_subslice 0 xs @ CHR '':'' # CHR '':'' # fmt_subslice 0 ys @ rest) =
      (xs, False, CHR '':'' # CHR '':'' # fmt_subslice 0 ys @ rest)"
    using assms(1) by (intro read_groups_fmt) auto
  moreover have "read_groups (7 - length xs) 0 (fmt_subslice 0 ys @ rest) = (ys, False, rest)"
    using assms by (intro read_groups_fmt) auto
  moreover have "8 - length xs - length ys = len" using assms(1) by simp
  ultimately show ?thesis using assms by (simp add: read_ipv6_addr_def)
qed

lemma read_groups_v4:
  assumes "read_separator CHR '':'' i read_ipv4_addr s = None"
    "read_separator CHR '':'' i read_group s = Some (g, t)"
    "read_separator CHR '':'' (Suc i) read_ipv4_addr t = Some (v4, rest)" "0 < k"
  shows "read_groups (Suc (Suc k)) i s = (of_nat g # v4_groups v4, True, rest)"
  using assms by simp

lemma read_ipv6_addr_mapped:
  assumes "to_ipv4_mapped ip = Some v4" "group_end rest"
  shows "read_ipv6_addr (''::ffff:'' @ fmt_ipv4 v4 @ rest) = Some (ip, rest)"
proof -
  obtain g h where ip: "ip = Ipv6Addr 0 0 0 0 0 0xFFFF g h"
    and v4: "v4 = Ipv4Addr (of_nat (unat g div 256)) (of_nat (unat g mod 256))
                           (of_nat (unat h div 256)) (of_nat (unat h mod 256))"
    using assms(1) by (cases ip) (auto split: if_splits)
  have "unat g div 256 < 256" "unat h div 256 < 256"
    using unat_u16_bound [of g] unat_u16_bound [of h] by auto
  then have groups: "v4_groups v4 = [g, h]" by (simp add: v4 del: of_nat_add of_nat_mult)
  have hex: "fmt_hex (unat (0xFFFF :: u16)) = ''ffff''"
    by (simp add: fmt_radix_def nat_digits.simps digit_char_def char_of_eq_iff)
  have five: "replicate 5 (0 :: u16) = [0, 0, 0, 0, 0]" by (simp add: numeral_Bit0 numeral_Bit1)
  let ?t = "CHR '':'' # fmt_ipv4 v4 @ rest"
  have "read_separator CHR '':'' 0 read_ipv4_addr (''ffff'' @ ?t) = None"
    using read_ipv4_addr_hex [of ?t "unat (0xFFFF :: u16)"] hex by (simp add: read_separator_def no_dot_def)
  moreover have "read_separator CHR '':'' 0 read_group (''ffff'' @ ?t) = Some (0xFFFF, ?t)"
    using read_group_fmt [of ?t "0xFFFF"] hex by (simp add: read_separator_def)
  moreover have "read_separator CHR '':'' (Suc 0) read_ipv4_addr ?t = Some (v4, rest)"
    using read_ipv4_addr_fmt [of rest v4] group_end_stops(2) [OF assms(2)] by (simp add: read_separator_def)
  ultimately have "read_groups (Suc (Suc 5)) 0 (''ffff'' @ ?t) = (of_nat 0xFFFF # v4_groups v4, True, rest)"
    by (rule read_groups_v4) simp
  then have "read_groups 7 0 (''ffff'' @ ?t) = ([0xFFFF, g, h], True, rest)"
    by (simp add: groups)
  moreover have "read_groups 8 0 (''::ffff'' @ ?t) = ([], False, ''::ffff'' @ ?t)"
    by (intro read_groups_end) (simp add: group_end_def)
  ultimately show ?thesis
    by (simp add: read_ipv6_addr_def ip from_segments_def five)
qed

lemma read_ipv6_addr_fmt:
  assumes "group_end rest"
  shows "read_ipv6_addr (fmt_ipv6 ip @ rest) = Some (ip, rest)"
proof (cases "to_ipv4_mapped ip")
  case (Some v4)
  with assms show ?thesis by (simp add: fmt_ipv6_def read_ipv6_addr_mapped [simplified])
next
  case None
  obtain start len where run: "longest_zeros 0 (0, 0) (0, 0) (segments ip) = (start, len)"
    by fastforce
  show ?thesis
  proof (cases "1 < len")
    case True
    have zr: "zero_run (segments ip) (start, len)"
      using zero_run_longest [of "[]" "(0, 0)" "(0, 0)" "segments ip"] run by (simp add: zero_run_def)
    let ?hd = "take start (segments ip)" and ?tl = "drop (start + len) (segments ip)"
    have "length ?hd + len + length ?tl = 8" using zr by (simp add: zero_run_def)
    from read_ipv6_addr_compressed [OF this True assms] zero_run_split [OF zr] None run True
    show ?thesis by (simp add: fmt_ipv6_def)
  next
    case False
    with None run assms show ?thesis by (simp add: fmt_ipv6_def read_ipv6_addr_plain)
  qed
qed

section \<open>Socket addresses\<close>

text \<open>
  The text of an address leaves out its flow information, so exactly the addresses
  with flow information 0 can be read back.
\<close>

definition textual :: "SocketAddr \<Rightarrow> bool" where
  "textual a \<longleftrightarrow> (case a of V4 _ \<Rightarrow> True | V6 b \<Rightarrow> v6_flowinfo b = 0)"

lemma SocketAddr_parse_V6:
  assumes "v6_flowinfo a = 0"
  shows "SocketAddr_parse (SocketAddr_to_string (V6 a)) = Inr (V6 a)"
proof -
  have no_v4: "read_socket_addr_v4 (CHR ''['' # s) = None" for s
    by (simp add: read_socket_addr_v4_def read_ipv4_addr_stops stops_def to_digit_def)
  let ?p = "CHR '':'' # fmt_dec (unat (v6_port a))"
  have ends: "group_end (CHR '']'' # s)" "group_end (CHR ''%'' # s)" for s
    by (simp_all add: group_end_def)
  show ?thesis
  proof (cases "v6_scope_id a = 0")
    case True
    have "read_scope_id (CHR '']'' # ?p) = None" by (simp add: read_scope_id_def)
    with True assms show ?thesis
      by (simp add: SocketAddr_parse_def read_socket_addr_def no_v4 read_socket_addr_v6_def
          read_ipv6_addr_fmt ends read_port_fmt)
  next
    case False
    with assms show ?thesis
      by (simp add: SocketAddr_parse_def read_socket_addr_def no_v4 read_socket_addr_v6_def
          read_ipv6_addr_fmt ends read_port_fmt read_scope_id_fmt)
  qed
qed

interpretation socket_text: text_codec textual SocketAddr_to_string SocketAddr_parse
proof
  fix a
  assume "textual a"
  then show "SocketAddr_parse (SocketAddr_to_string a) = Inr a"
    by (cases a) (simp_all add: textual_def SocketAddr_parse_V4 SocketAddr_parse_V6
        del: SocketAddr_to_string.simps)
qed

lemma SocketAddr_parse_textual: "SocketAddr_parse s = Inr a \<Longrightarrow> textual a"
  by (auto simp: SocketAddr_parse_def read_socket_addr_def read_socket_addr_v4_def
      read_socket_addr_v6_def textual_def bind_eq_Some_conv
      split: option.splits list.splits prod.splits)

text \<open>A printed address is ASCII, so it is a valid string.\<close>

definition ascii :: "string \<Rightarrow> bool" where
  "ascii s \<longleftrightarrow> (\<forall>c \<in> set s. (of_char c :: nat) < 128)"

lemma ascii_simps [simp]:
  "ascii []" "ascii (c # s) \<longleftrightarrow> (of_char c :: nat) < 128 \<and> ascii s" "ascii (s @ t) \<longleftrightarrow> ascii s \<and> ascii t"
  by (auto simp: ascii_def)

lemma ascii_fmt_radix: "1 < radix \<Longrightarrow> radix \<le> 16 \<Longrightarrow> ascii (fmt_radix radix n)"
  using nat_digits_bound [of radix _ n] by (fastforce simp: ascii_def fmt_radix_def digit_char_def)

lemma ascii_fmt_ipv6: "ascii (fmt_ipv6 ip)"
proof -
  have v4: "ascii (fmt_ipv4 a)" for a by (cases a) (simp add: ascii_fmt_radix)
  have "ascii (fmt_subslice i xs)" for i xs by (induction i xs rule: fmt_subslice.induct) (simp_all add: ascii_fmt_radix)
  with v4 show ?thesis by (simp add: fmt_ipv6_def split: option.splits prod.splits)
qed

lemma ascii_SocketAddr: "ascii (SocketAddr_to_string a)"
proof (cases a)
  case (V4 b)
  then show ?thesis by (cases "v4_ip b") (simp add: ascii_fmt_radix)
qed (simp add: ascii_fmt_radix ascii_fmt_ipv6)

lemma ascii_utf8: "ascii s \<Longrightarrow> utf8_valid s"
  by (simp add: ascii_def utf8_valid_ascii)

end
