(* ===== verification/Iroh_Error.thy ===== *)
theory Iroh_Error
  imports Iroh_Prelude
begin

text \<open>
  error.rs: the one error type that crosses the FFI.  Every fallible call of the crate
  ends in it, by \<^verbatim>\<open>map_err(IrohError::msg)\<close> with the \<^verbatim>\<open>Display\<close> of the library's error;
  the \<^verbatim>\<open>Display\<close> function is an argument here.
\<close>

datatype IrohError = Generic (err_msg: string)

definition IrohError_msg :: "('e \<Rightarrow> string) \<Rightarrow> 'e \<Rightarrow> IrohError" where
  "IrohError_msg to_string e = Generic (to_string e)"

text \<open>\<^verbatim>\<open>#[error("{msg}")]\<close>: the \<^verbatim>\<open>Display\<close> of the error is the message itself.\<close>

definition IrohError_to_string :: "IrohError \<Rightarrow> string" where
  "IrohError_to_string e = (case e of Generic m \<Rightarrow> m)"

type_synonym 'a iroh_result = "IrohError + 'a"

lemma IrohError_msg_text [simp]: "IrohError_to_string (IrohError_msg d e) = d e"
  by (simp add: IrohError_to_string_def IrohError_msg_def)

text \<open>Passing an error through \<^verbatim>\<open>msg\<close> a second time changes nothing.\<close>

lemma IrohError_msg_idem [simp]: "IrohError_msg IrohError_to_string e = e"
  by (cases e) (simp add: IrohError_msg_def IrohError_to_string_def)

end
