(* ===== verification/Iroh_Keys.thy ===== *)
theory Iroh_Keys
  imports Iroh_Error
begin

text \<open>
  The key types of the \<^verbatim>\<open>iroh\<close> crate (\<^verbatim>\<open>SecretKey\<close>, \<^verbatim>\<open>PublicKey\<close>, \<^verbatim>\<open>Signature\<close>), which is not
  part of this repository: a record of the functions the sources call, with the
  documented laws the properties rely on as named predicates.  Every definition that
  calls one of these functions takes the record as an argument.
\<close>

record ('pk, 'sk, 'sig, 'err) key_api =
  pk_from_str :: "string \<Rightarrow> 'err + 'pk"
  pk_to_string :: "'pk \<Rightarrow> string"
  pk_try_from :: "bytes \<Rightarrow> 'err + 'pk"
  pk_as_bytes :: "'pk \<Rightarrow> 32 byte_array"
  pk_verify :: "'pk \<Rightarrow> bytes \<Rightarrow> 'sig \<Rightarrow> 'err + unit"
  sk_from_bytes :: "32 byte_array \<Rightarrow> 'sk"
  sk_try_from :: "bytes \<Rightarrow> 'err + 'sk"
  sk_to_bytes :: "'sk \<Rightarrow> 32 byte_array"
  sk_public :: "'sk \<Rightarrow> 'pk"
  sk_sign :: "'sk \<Rightarrow> bytes \<Rightarrow> 'sig"
  sig_try_from :: "bytes \<Rightarrow> 'err + 'sig"
  sig_to_bytes :: "'sig \<Rightarrow> 64 byte_array"
  key_err :: "'err \<Rightarrow> string"

text \<open>Parsing the text of a public key gives the key.\<close>

definition pk_text_law :: "('pk, 'sk, 'sig, 'err) key_api \<Rightarrow> bool" where
  "pk_text_law K \<longleftrightarrow> (\<forall>k. pk_from_str K (pk_to_string K k) = Inr k)"

text \<open>A public key is read from its 32 bytes, and from no slice of another length.\<close>

definition pk_bytes_law :: "('pk, 'sk, 'sig, 'err) key_api \<Rightarrow> bool" where
  "pk_bytes_law K \<longleftrightarrow>
     (\<forall>k. pk_try_from K (to_vec (pk_as_bytes K k)) = Inr k) \<and>
     (\<forall>bs. length bs \<noteq> 32 \<longrightarrow> is_err (pk_try_from K bs))"

text \<open>Every 32 bytes are a secret key, and no slice of another length is.\<close>

definition sk_bytes_law :: "('pk, 'sk, 'sig, 'err) key_api \<Rightarrow> bool" where
  "sk_bytes_law K \<longleftrightarrow>
     (\<forall>a. sk_try_from K (to_vec a) = Inr (sk_from_bytes K a)) \<and>
     (\<forall>a. sk_to_bytes K (sk_from_bytes K a) = a) \<and>
     (\<forall>k. sk_from_bytes K (sk_to_bytes K k) = k) \<and>
     (\<forall>bs. length bs \<noteq> 32 \<longrightarrow> is_err (sk_try_from K bs))"

text \<open>The same for signatures and 64 bytes.\<close>

definition sig_bytes_law :: "('pk, 'sk, 'sig, 'err) key_api \<Rightarrow> bool" where
  "sig_bytes_law K \<longleftrightarrow>
     (\<forall>s. sig_try_from K (to_vec (sig_to_bytes K s)) = Inr s) \<and>
     (\<forall>bs. length bs \<noteq> 64 \<longrightarrow> is_err (sig_try_from K bs))"

text \<open>Ed25519 is correct: a signature verifies under the signer's public key.\<close>

definition sign_verify_law :: "('pk, 'sk, 'sig, 'err) key_api \<Rightarrow> bool" where
  "sign_verify_law K \<longleftrightarrow> (\<forall>k m. is_ok (pk_verify K (sk_public K k) m (sk_sign K k m)))"

definition key_laws :: "('pk, 'sk, 'sig, 'err) key_api \<Rightarrow> bool" where
  "key_laws K \<longleftrightarrow>
     pk_text_law K \<and> pk_bytes_law K \<and> sk_bytes_law K \<and> sig_bytes_law K \<and> sign_verify_law K"

lemma key_lawsD:
  assumes "key_laws K"
  shows "pk_from_str K (pk_to_string K k) = Inr k"
    and "pk_try_from K (to_vec (pk_as_bytes K k)) = Inr k"
    and "length bs \<noteq> 32 \<Longrightarrow> is_err (pk_try_from K bs)"
    and "sk_try_from K (to_vec a) = Inr (sk_from_bytes K a)"
    and "sk_to_bytes K (sk_from_bytes K a) = a"
    and "sk_from_bytes K (sk_to_bytes K s) = s"
    and "length bs \<noteq> 32 \<Longrightarrow> is_err (sk_try_from K bs)"
    and "sig_try_from K (to_vec (sig_to_bytes K g)) = Inr g"
    and "length bs \<noteq> 64 \<Longrightarrow> is_err (sig_try_from K bs)"
    and "is_ok (pk_verify K (sk_public K s) m (sk_sign K s m))"
  using assms
  by (auto simp: key_laws_def pk_text_law_def pk_bytes_law_def sk_bytes_law_def sig_bytes_law_def
      sign_verify_law_def)

lemma sk_try_from_cases:
  assumes "key_laws K"
  obtains (ok) a where "bs = to_vec (a :: 32 byte_array)" "sk_try_from K bs = Inr (sk_from_bytes K a)"
    | (err) e where "length bs \<noteq> 32" "sk_try_from K bs = Inl e"
proof (cases "length bs = 32")
  case True
  then have "bs = to_vec (array_of bs :: 32 byte_array)" by simp
  with key_lawsD(4) [OF assms, of "array_of bs"] that(1) show thesis by metis
next
  case False
  with key_lawsD(7) [OF assms, of bs] that(2) show thesis by (auto simp: is_err_iff)
qed

section \<open>A concrete instance of the laws\<close>

text \<open>
  The laws can hold together: keys are their own bytes, the text of a key is its bytes,
  and a "signature" repeats the key twice.  It is used only to show that hypotheses are
  satisfiable.
\<close>

definition demo_keys :: "(32 byte_array, 32 byte_array, 64 byte_array, unit) key_api" where
  "demo_keys =
     \<lparr>pk_from_str = (\<lambda>s. slice_to_array (map (\<lambda>c. of_nat (of_char c)) s)),
      pk_to_string = (\<lambda>k. map (\<lambda>b. char_of (unat b)) (to_vec k)),
      pk_try_from = slice_to_array, pk_as_bytes = id,
      pk_verify = (\<lambda>k m s. if to_vec s = to_vec k @ to_vec k then Inr () else Inl ()),
      sk_from_bytes = id, sk_try_from = slice_to_array, sk_to_bytes = id, sk_public = id,
      sk_sign = (\<lambda>k m. array_of (to_vec k @ to_vec k)),
      sig_try_from = slice_to_array, sig_to_bytes = id, key_err = (\<lambda>_. ''bad key'')\<rparr>"

lemma demo_keys_text: "map (\<lambda>c. of_nat (of_char c)) (map (\<lambda>b. char_of (unat b)) bs) = (bs :: bytes)"
proof -
  have "unat b mod 256 = unat b" for b :: u8
    using unsigned_less [of b, where ?'a = nat] by simp
  then show ?thesis by (simp add: map_idI)
qed

lemma demo_keys_laws: "key_laws demo_keys"
  using demo_keys_text
  by (simp add: key_laws_def pk_text_law_def pk_bytes_law_def sk_bytes_law_def sig_bytes_law_def
      sign_verify_law_def demo_keys_def slice_to_array_def to_vec_inverse is_err_def comp_def)

end
