(* ===== verification/Endpoint_Addr.thy ===== *)
theory Endpoint_Addr
  imports Rust_Net Iroh_Keys "HOL-Library.Multiset" "HOL-Library.FSet" "HOL-Library.Char_ord"
begin

text \<open>
  endpoint_addr.rs: the flattened address record of the FFI, its conversions from and to
  \<^verbatim>\<open>iroh::EndpointAddr\<close>, and the ticket functions built on them (with the ticket functions
  of endpoint.rs).  \<^verbatim>\<open>iroh::EndpointAddr\<close>, \<^verbatim>\<open>RelayUrl\<close> and \<^verbatim>\<open>EndpointTicket\<close> belong to the
  \<^verbatim>\<open>iroh\<close> and \<^verbatim>\<open>iroh-tickets\<close> crates: a record of the functions called, with its laws.
\<close>

section \<open>The library's addresses and tickets\<close>

datatype ('url, 'o) TransportAddr = Ip SocketAddr | Relay 'url | Other 'o

record ('pk, 'url, 'o, 'addr, 'ticket, 'err) addr_api =
  url_from_str :: "string \<Rightarrow> 'err + 'url"
  url_to_string :: "'url \<Rightarrow> string"
  addr_from_parts :: "'pk \<Rightarrow> ('url, 'o) TransportAddr list \<Rightarrow> 'addr"
  addr_id :: "'addr \<Rightarrow> 'pk"
  addr_relay_urls :: "'addr \<Rightarrow> 'url list"
  addr_ip_addrs :: "'addr \<Rightarrow> SocketAddr list"
  ticket_new :: "'addr \<Rightarrow> 'ticket"
  ticket_endpoint_addr :: "'ticket \<Rightarrow> 'addr"
  ticket_to_string :: "'ticket \<Rightarrow> string"
  ticket_from_str :: "string \<Rightarrow> 'err + 'ticket"
  ticket_encode_bytes :: "'ticket \<Rightarrow> bytes"
  ticket_decode_bytes :: "bytes \<Rightarrow> 'err + 'ticket"
  addr_err :: "'err \<Rightarrow> string"

text \<open>
  An address is its id and its set of transport addresses (the public fields \<^verbatim>\<open>id\<close> and
  \<^verbatim>\<open>addrs\<close>, a \<^verbatim>\<open>BTreeSet\<close>; \<open>addrs_of\<close> reads the latter); \<^verbatim>\<open>relay_urls\<close> and \<^verbatim>\<open>ip_addrs\<close>
  iterate over the members of one kind, each once.
\<close>

definition addr_laws ::
  "('pk, 'url, 'o, 'addr, 'ticket, 'err) addr_api \<Rightarrow> ('addr \<Rightarrow> ('url, 'o) TransportAddr set) \<Rightarrow> bool" where
  "addr_laws A addrs_of \<longleftrightarrow>
     (\<forall>id xs. addr_id A (addr_from_parts A id xs) = id \<and> addrs_of (addr_from_parts A id xs) = set xs) \<and>
     (\<forall>a. set (addr_relay_urls A a) = {u. Relay u \<in> addrs_of a} \<and> distinct (addr_relay_urls A a)) \<and>
     (\<forall>a. set (addr_ip_addrs A a) = {s. Ip s \<in> addrs_of a} \<and> distinct (addr_ip_addrs A a)) \<and>
     (\<forall>a b. addr_id A a = addr_id A b \<and> addrs_of a = addrs_of b \<longrightarrow> a = b)"

definition url_text_law :: "('pk, 'url, 'o, 'addr, 'ticket, 'err) addr_api \<Rightarrow> bool" where
  "url_text_law A \<longleftrightarrow> (\<forall>u. url_from_str A (url_to_string A u) = Inr u)"

text \<open>A ticket carries the address it was made from, and survives its text and its bytes.\<close>

definition ticket_laws :: "('pk, 'url, 'o, 'addr, 'ticket, 'err) addr_api \<Rightarrow> bool" where
  "ticket_laws A \<longleftrightarrow>
     (\<forall>a. ticket_endpoint_addr A (ticket_new A a) = a) \<and>
     (\<forall>t. ticket_from_str A (ticket_to_string A t) = Inr t) \<and>
     (\<forall>t. ticket_decode_bytes A (ticket_encode_bytes A t) = Inr t)"

section \<open>Operations\<close>

record EndpointAddr =
  ea_id :: string
  ea_relay_url :: "string option"
  ea_direct_addresses :: "string list"

fun push_direct ::
  "('url, 'o) TransportAddr list \<Rightarrow> string list \<Rightarrow> ('url, 'o) TransportAddr list iroh_result" where
  "push_direct addrs [] = Inr addrs"
| "push_direct addrs (ip # ips) =
     res_bind (map_err (IrohError_msg AddrParseError_to_string) (SocketAddr_parse ip))
       (\<lambda>sock. push_direct (addrs @ [Ip sock]) ips)"

definition EndpointAddr_try_into ::
  "('pk, 'sk, 'sig, 'kerr) key_api \<Rightarrow> ('pk, 'url, 'o, 'addr, 'ticket, 'err) addr_api \<Rightarrow>
   EndpointAddr \<Rightarrow> 'addr iroh_result" where
  "EndpointAddr_try_into K A addr =
     res_bind (map_err (IrohError_msg (key_err K)) (pk_from_str K (ea_id addr))) (\<lambda>id.
     res_bind (push_direct [] (ea_direct_addresses addr)) (\<lambda>addrs.
     res_bind
       (case ea_relay_url addr of
          None \<Rightarrow> Inr addrs
        | Some relay \<Rightarrow>
            res_bind (map_err (IrohError_msg (addr_err A)) (url_from_str A relay))
              (\<lambda>url. Inr (addrs @ [Relay url]))) (\<lambda>addrs.
     Inr (addr_from_parts A id addrs))))"

definition iter_next :: "'a list \<Rightarrow> 'a option" where
  "iter_next xs = (case xs of [] \<Rightarrow> None | x # _ \<Rightarrow> Some x)"

definition EndpointAddr_from ::
  "('pk, 'sk, 'sig, 'kerr) key_api \<Rightarrow> ('pk, 'url, 'o, 'addr, 'ticket, 'err) addr_api \<Rightarrow>
   'addr \<Rightarrow> EndpointAddr" where
  "EndpointAddr_from K A addr =
     \<lparr>ea_id = pk_to_string K (addr_id A addr),
      ea_relay_url = map_option (url_to_string A) (iter_next (addr_relay_urls A addr)),
      ea_direct_addresses = map SocketAddr_to_string (addr_ip_addrs A addr)\<rparr>"

definition endpoint_addr_from_ticket ::
  "('pk, 'sk, 'sig, 'kerr) key_api \<Rightarrow> ('pk, 'url, 'o, 'addr, 'ticket, 'err) addr_api \<Rightarrow>
   string \<Rightarrow> EndpointAddr iroh_result" where
  "endpoint_addr_from_ticket K A ticket =
     res_bind (map_err (IrohError_msg (addr_err A)) (ticket_from_str A ticket))
       (\<lambda>t. Inr (EndpointAddr_from K A (ticket_endpoint_addr A t)))"

definition ticket_from_endpoint_addr ::
  "('pk, 'sk, 'sig, 'kerr) key_api \<Rightarrow> ('pk, 'url, 'o, 'addr, 'ticket, 'err) addr_api \<Rightarrow>
   EndpointAddr \<Rightarrow> string iroh_result" where
  "ticket_from_endpoint_addr K A addr =
     res_bind (EndpointAddr_try_into K A addr)
       (\<lambda>addr. Inr (ticket_to_string A (ticket_new A addr)))"

text \<open>The ticket functions of endpoint.rs.\<close>

definition endpoint_id_from_ticket ::
  "('pk, 'sk, 'sig, 'kerr) key_api \<Rightarrow> ('pk, 'url, 'o, 'addr, 'ticket, 'err) addr_api \<Rightarrow>
   string \<Rightarrow> string iroh_result" where
  "endpoint_id_from_ticket K A ticket =
     res_bind (map_err (IrohError_msg (addr_err A)) (ticket_from_str A ticket))
       (\<lambda>t. Inr (pk_to_string K (addr_id A (ticket_endpoint_addr A t))))"

definition ticket_bytes ::
  "('pk, 'url, 'o, 'addr, 'ticket, 'err) addr_api \<Rightarrow> string \<Rightarrow> bytes iroh_result" where
  "ticket_bytes A ticket =
     res_bind (map_err (IrohError_msg (addr_err A)) (ticket_from_str A ticket))
       (\<lambda>t. Inr (ticket_encode_bytes A t))"

definition ticket_from_bytes ::
  "('pk, 'url, 'o, 'addr, 'ticket, 'err) addr_api \<Rightarrow> bytes \<Rightarrow> string iroh_result" where
  "ticket_from_bytes A bs =
     res_bind (map_err (IrohError_msg (addr_err A)) (ticket_decode_bytes A bs))
       (\<lambda>t. Inr (ticket_to_string A t))"

section \<open>The loop over the direct addresses\<close>

definition parse_direct :: "string \<Rightarrow> SocketAddr iroh_result" where
  "parse_direct ip = map_err (IrohError_msg AddrParseError_to_string) (SocketAddr_parse ip)"

lemma push_direct_eq:
  "push_direct addrs ips = map_ok (\<lambda>socks. addrs @ map Ip socks) (collect_res parse_direct ips)"
  by (induction ips arbitrary: addrs)
    (auto simp: parse_direct_def res_bind_def map_err_def map_ok_def split: sum.splits)

interpretation direct_text: text_codec textual SocketAddr_to_string parse_direct
  by unfold_locales (simp add: parse_direct_def socket_text.dec_enc)

lemma push_direct_printed:
  "list_all textual socks \<Longrightarrow> push_direct addrs (map SocketAddr_to_string socks) = Inr (addrs @ map Ip socks)"
  by (simp add: push_direct_eq direct_text.collect_dec_enc list_all_iff)

lemma push_direct_ok:
  "is_ok (push_direct [] ds :: ('url, 'o) TransportAddr list iroh_result) \<longleftrightarrow> list_all (\<lambda>u. is_ok (SocketAddr_parse u)) ds"
proof -
  have "is_ok (parse_direct u) \<longleftrightarrow> is_ok (SocketAddr_parse u)" for u
    by (cases "SocketAddr_parse u") (simp_all add: parse_direct_def)
  then show ?thesis
    using collect_res_is_ok [of parse_direct ds]
    by (cases "collect_res parse_direct ds") (simp_all add: push_direct_eq list_all_iff)
qed

lemma push_direct_Inl:
  "(push_direct [] ds :: ('url, 'o) TransportAddr list iroh_result) = Inl e \<longleftrightarrow>
     (\<exists>us d vs x. ds = us @ d # vs \<and> list_all (\<lambda>u. is_ok (SocketAddr_parse u)) us \<and>
        SocketAddr_parse d = Inl x \<and> e = IrohError_msg AddrParseError_to_string x)"
proof -
  have "is_ok (parse_direct u) \<longleftrightarrow> is_ok (SocketAddr_parse u)" for u
    by (cases "SocketAddr_parse u") (simp_all add: parse_direct_def)
  moreover have "(push_direct [] ds :: ('url, 'o) TransportAddr list iroh_result) = Inl e \<longleftrightarrow> collect_res parse_direct ds = Inl e"
    by (cases "collect_res parse_direct ds") (simp_all add: push_direct_eq)
  ultimately show ?thesis
    by (auto simp: collect_res_Inl_iff list_all_iff parse_direct_def result_simps)
qed

section \<open>Conversions\<close>

lemma addr_lawsD:
  assumes "addr_laws A addrs_of"
  shows "addr_id A (addr_from_parts A i xs) = i"
    and "addrs_of (addr_from_parts A i xs) = set xs"
    and "set (addr_relay_urls A a) = {u. Relay u \<in> addrs_of a}"
    and "distinct (addr_relay_urls A a)"
    and "set (addr_ip_addrs A a) = {s. Ip s \<in> addrs_of a}"
    and "distinct (addr_ip_addrs A a)"
    and "addr_id A a = addr_id A b \<Longrightarrow> addrs_of a = addrs_of b \<Longrightarrow> a = b"
  using assms by (auto simp: addr_laws_def)

lemma ticket_lawsD:
  assumes "ticket_laws A"
  shows "ticket_endpoint_addr A (ticket_new A a) = a"
    and "ticket_from_str A (ticket_to_string A t) = Inr t"
    and "ticket_decode_bytes A (ticket_encode_bytes A t) = Inr t"
  using assms by (auto simp: ticket_laws_def)

text \<open>What the flat record can carry: IP addresses that survive their text, at most one relay.\<close>

definition flat_addrs :: "('pk, 'url, 'o, 'addr, 'ticket, 'err) addr_api \<Rightarrow> 'addr \<Rightarrow> ('url, 'o) TransportAddr list" where
  "flat_addrs A a =
     map Ip (addr_ip_addrs A a) @ (case iter_next (addr_relay_urls A a) of None \<Rightarrow> [] | Some u \<Rightarrow> [Relay u])"

definition representable :: "('url, 'o) TransportAddr set \<Rightarrow> bool" where
  "representable X \<longleftrightarrow>
     (\<forall>o'. Other o' \<notin> X) \<and> (\<forall>u v. Relay u \<in> X \<longrightarrow> Relay v \<in> X \<longrightarrow> u = v)"

lemma try_into_from:
  assumes "pk_text_law K" "url_text_law A" "list_all textual (addr_ip_addrs A a)"
  shows "EndpointAddr_try_into K A (EndpointAddr_from K A a) =
     Inr (addr_from_parts A (addr_id A a) (flat_addrs A a))"
proof -
  have "pk_from_str K (pk_to_string K (addr_id A a)) = Inr (addr_id A a)"
    using assms(1) by (simp add: pk_text_law_def)
  moreover have "url_from_str A (url_to_string A u) = Inr u" for u
    using assms(2) by (simp add: url_text_law_def)
  ultimately show ?thesis
    using assms(3)
    by (cases "iter_next (addr_relay_urls A a)")
      (simp_all add: EndpointAddr_try_into_def EndpointAddr_from_def flat_addrs_def push_direct_printed)
qed

lemma set_flat_addrs:
  assumes "addr_laws A addrs_of"
  shows "set (flat_addrs A a) = addrs_of a \<longleftrightarrow> representable (addrs_of a)"
proof -
  note ip = addr_lawsD(5) [OF assms, of a] and relay = addr_lawsD(3) [OF assms, of a]
  have ips: "{x \<in> addrs_of a. \<exists>s. x = Ip s} = Ip ` set (addr_ip_addrs A a)" using ip by auto
  show ?thesis
  proof (cases "addr_relay_urls A a")
    case Nil
    then have flat: "set (flat_addrs A a) = Ip ` set (addr_ip_addrs A a)"
      by (simp add: flat_addrs_def iter_next_def)
    have "\<And>u. Relay u \<notin> addrs_of a" using relay Nil by auto
    then show ?thesis
      unfolding flat ips [symmetric] representable_def
      by (auto, metis TransportAddr.exhaust)
  next
    case (Cons u us)
    then have flat: "set (flat_addrs A a) = insert (Relay u) (Ip ` set (addr_ip_addrs A a))"
      by (simp add: flat_addrs_def iter_next_def)
    have u: "Relay u \<in> addrs_of a" using relay Cons by auto
    show ?thesis
    proof
      assume eq: "set (flat_addrs A a) = addrs_of a"
      show "representable (addrs_of a)"
        unfolding eq [symmetric] flat by (auto simp: representable_def)
    next
      assume rep: "representable (addrs_of a)"
      have "x \<in> insert (Relay u) (Ip ` set (addr_ip_addrs A a))" if "x \<in> addrs_of a" for x
        using that rep u ip by (cases x) (auto simp: representable_def)
      then show "set (flat_addrs A a) = addrs_of a"
        unfolding flat using u ip by auto
    qed
  qed
qed

text \<open>
  The other direction, from a record in canonical text: the id and the relay come back
  unchanged, the direct addresses as a permutation (the library keeps a set).
\<close>

definition canonical_addr ::
  "('pk, 'sk, 'sig, 'kerr) key_api \<Rightarrow> ('pk, 'url, 'o, 'addr, 'ticket, 'err) addr_api \<Rightarrow>
   'pk \<Rightarrow> 'url option \<Rightarrow> SocketAddr list \<Rightarrow> EndpointAddr" where
  "canonical_addr K A k relay socks =
     \<lparr>ea_id = pk_to_string K k, ea_relay_url = map_option (url_to_string A) relay,
      ea_direct_addresses = map SocketAddr_to_string socks\<rparr>"

definition canonical_parts :: "'url option \<Rightarrow> SocketAddr list \<Rightarrow> ('url, 'o) TransportAddr list" where
  "canonical_parts relay socks = map Ip socks @ (case relay of None \<Rightarrow> [] | Some u \<Rightarrow> [Relay u])"

lemma try_into_canonical:
  assumes "pk_text_law K" "url_text_law A" "list_all textual socks"
  shows "EndpointAddr_try_into K A (canonical_addr K A k relay socks) =
     Inr (addr_from_parts A k (canonical_parts relay socks))"
proof -
  have "pk_from_str K (pk_to_string K k) = Inr k"
    using assms(1) by (simp add: pk_text_law_def)
  moreover have "url_from_str A (url_to_string A u) = Inr u" for u
    using assms(2) by (simp add: url_text_law_def)
  ultimately show ?thesis
    using assms(3)
    by (cases relay)
      (simp_all add: EndpointAddr_try_into_def canonical_addr_def canonical_parts_def push_direct_printed)
qed

lemma from_canonical_parts:
  assumes laws: "addr_laws A addrs_of" and dist: "distinct socks"
    and e_def: "e = EndpointAddr_from K A (addr_from_parts A k (canonical_parts relay socks))"
  shows "ea_id e = pk_to_string K k"
    and "ea_relay_url e = map_option (url_to_string A) relay"
    and "mset (ea_direct_addresses e) = mset (map SocketAddr_to_string socks)"
proof -
  let ?a = "addr_from_parts A k (canonical_parts relay socks)"
  have addrs: "addrs_of ?a = Ip ` set socks \<union> Relay ` set_option relay"
    using addr_lawsD(2) [OF laws, of k "canonical_parts relay socks"]
    by (cases relay) (simp_all add: canonical_parts_def)
  have "set (addr_relay_urls A ?a) = set_option relay" "distinct (addr_relay_urls A ?a)"
    using addr_lawsD(3,4) [OF laws, of ?a] addrs by auto
  then have "iter_next (addr_relay_urls A ?a) = relay"
    by (cases "addr_relay_urls A ?a"; cases relay) (auto simp: iter_next_def)
  then show "ea_relay_url e = map_option (url_to_string A) relay"
    by (simp add: e_def EndpointAddr_from_def)
  show "ea_id e = pk_to_string K k"
    using addr_lawsD(1) [OF laws] by (simp add: e_def EndpointAddr_from_def)
  have "set (addr_ip_addrs A ?a) = set socks" "distinct (addr_ip_addrs A ?a)"
    using addr_lawsD(5,6) [OF laws, of ?a] addrs by auto
  then have "mset (addr_ip_addrs A ?a) = mset socks"
    using dist by (simp add: set_eq_iff_mset_eq_distinct)
  then show "mset (ea_direct_addresses e) = mset (map SocketAddr_to_string socks)"
    by (simp add: e_def EndpointAddr_from_def)
qed

section \<open>A concrete instance of the laws\<close>

text \<open>
  An address as a pair of id and finite set, relay URLs as their text, tickets numbered:
  it shows that the laws are consistent, and is used in witnesses only.
\<close>

instance TransportAddr :: (countable, countable) countable
  by countable_datatype

instance byte_array :: (len) countable
  by (rule countable_classI [of "\<lambda>a. to_nat (to_vec a)"]) (simp add: to_vec_inject)

type_synonym demo_addr = "32 byte_array \<times> (string, unit) TransportAddr fset"

definition demo_addrs :: "demo_addr \<Rightarrow> (string, unit) TransportAddr set" where
  "demo_addrs a = fset (snd a)"

definition demo_addr_api :: "(32 byte_array, string, unit, demo_addr, demo_addr, unit) addr_api" where
  "demo_addr_api =
     \<lparr>url_from_str = Inr, url_to_string = id,
      addr_from_parts = (\<lambda>k xs. (k, fset_of_list xs)), addr_id = fst,
      addr_relay_urls = (\<lambda>a. sorted_list_of_set {u. Relay u \<in> fset (snd a)}),
      addr_ip_addrs = (\<lambda>a. sorted_list_of_set {s. Ip s \<in> fset (snd a)}),
      ticket_new = id, ticket_endpoint_addr = id,
      ticket_to_string = (\<lambda>t. replicate (to_nat t) CHR ''a''),
      ticket_from_str = (\<lambda>s. Inr (from_nat (length s))),
      ticket_encode_bytes = (\<lambda>t. replicate (to_nat t) 0),
      ticket_decode_bytes = (\<lambda>bs. Inr (from_nat (length bs))),
      addr_err = (\<lambda>_. ''bad address'')\<rparr>"

lemma finite_members:
  assumes "finite X"
  shows "finite {u. Relay u \<in> X}" "finite {s. Ip s \<in> X}"
  using finite_vimageI [OF assms, of Relay] finite_vimageI [OF assms, of Ip]
  by (auto simp: vimage_def inj_def)

lemma demo_addr_laws:
  "addr_laws demo_addr_api demo_addrs" "url_text_law demo_addr_api" "ticket_laws demo_addr_api"
proof -
  show "addr_laws demo_addr_api demo_addrs"
    by (simp add: addr_laws_def demo_addr_api_def demo_addrs_def finite_members fset_of_list.rep_eq
        prod_eq_iff fset_inject)
qed (simp_all add: demo_addr_api_def url_text_law_def ticket_laws_def)

lemma demo_ips: "set (addr_ip_addrs demo_addr_api a) = {s. Ip s \<in> demo_addrs a}"
  by (rule addr_lawsD(5) [OF demo_addr_laws(1)])

definition demo_key :: "32 byte_array" where
  "demo_key = array_of (replicate 32 1)"

definition demo_sock :: SocketAddr where
  "demo_sock = V4 \<lparr>v4_ip = Ipv4Addr 127 0 0 1, v4_port = 4433\<rparr>"

definition demo_one_relay :: demo_addr where
  "demo_one_relay = (demo_key, {|Ip demo_sock, Relay ''https://a/''|})"

definition demo_two_relays :: demo_addr where
  "demo_two_relays = (demo_key, {|Ip demo_sock, Relay ''https://a/'', Relay ''https://b/''|})"

lemma demo_sock_textual [simp]: "textual demo_sock"
  by (simp add: demo_sock_def textual_def)

lemma demo_addr_cases:
  "list_all textual (addr_ip_addrs demo_addr_api demo_one_relay)"
  "list_all textual (addr_ip_addrs demo_addr_api demo_two_relays)"
  "representable (demo_addrs demo_one_relay)" "\<not> representable (demo_addrs demo_two_relays)"
  by (auto simp: list_all_iff demo_ips demo_addrs_def demo_one_relay_def demo_two_relays_def
      representable_def)

lemma demo_pk_text: "pk_text_law demo_keys"
  using demo_keys_laws by (simp add: key_laws_def)

section \<open>Properties\<close>



text \<open>C12: A record in canonical text survives a ticket: encoding it and decoding the ticket
  gives the same id and relay, and the same direct addresses up to order.\<close>

theorem record_ticket_roundtrip:
  assumes "pk_text_law K" "url_text_law A" "addr_laws A addrs_of" "ticket_laws A"
    and "list_all textual socks" "distinct socks" "r = canonical_addr K A k relay socks"
  shows "\<exists>t e. ticket_from_endpoint_addr K A r = Inr t \<and> endpoint_addr_from_ticket K A t = Inr e \<and>
     ea_id e = ea_id r \<and> ea_relay_url e = ea_relay_url r \<and>
     mset (ea_direct_addresses e) = mset (ea_direct_addresses r)"
proof -
  let ?a = "addr_from_parts A k (canonical_parts relay socks)"
  have "ticket_from_endpoint_addr K A r = Inr (ticket_to_string A (ticket_new A ?a))"
    by (simp add: ticket_from_endpoint_addr_def assms(7) try_into_canonical [OF assms(1,2,5)])
  moreover have "endpoint_addr_from_ticket K A (ticket_to_string A (ticket_new A ?a)) = Inr (EndpointAddr_from K A ?a)"
    by (simp add: endpoint_addr_from_ticket_def ticket_lawsD [OF assms(4)])
  ultimately show ?thesis
    using from_canonical_parts [OF assms(3,6) HOL.refl, of K k relay]
    by (simp add: assms(7) canonical_addr_def)
qed

theorem record_ticket_roundtrip_witness:
  "\<exists>t e. ticket_from_endpoint_addr demo_keys demo_addr_api
       (canonical_addr demo_keys demo_addr_api demo_key (Some ''https://a/'') [demo_sock]) = Inr t \<and>
     endpoint_addr_from_ticket demo_keys demo_addr_api t = Inr e \<and> ea_relay_url e = Some ''https://a/'' \<and>
     ea_direct_addresses e = [SocketAddr_to_string demo_sock]"
  using record_ticket_roundtrip [OF demo_pk_text demo_addr_laws(2,1,3), of "[demo_sock]" _ demo_key "Some ''https://a/''"]
  by (auto simp: canonical_addr_def demo_addr_api_def)

text \<open>C17: Decoding a ticket into a record and encoding that again gives the same ticket
  exactly when the ticket's address is one the record can carry: the two ticket
  functions are not inverse to each other on an address with two relays.\<close>

theorem ticket_record_roundtrip_iff:
  assumes "pk_text_law K" "url_text_law A" "addr_laws A addrs_of" "ticket_laws A"
    and "list_all textual (addr_ip_addrs A a)" "t = ticket_to_string A (ticket_new A a)"
  shows "res_bind (endpoint_addr_from_ticket K A t) (ticket_from_endpoint_addr K A) = Inr t \<longleftrightarrow>
     representable (addrs_of a)"
proof -
  let ?b = "addr_from_parts A (addr_id A a) (flat_addrs A a)"
  have "res_bind (endpoint_addr_from_ticket K A t) (ticket_from_endpoint_addr K A) =
      Inr (ticket_to_string A (ticket_new A ?b))"
    by (simp add: assms(6) endpoint_addr_from_ticket_def ticket_from_endpoint_addr_def
        ticket_lawsD [OF assms(4)] try_into_from [OF assms(1,2,5)])
  moreover have "ticket_to_string A (ticket_new A ?b) = t \<longleftrightarrow> ?b = a"
    unfolding assms(6) using ticket_lawsD(1,2) [OF assms(4)] by (metis sum.inject(2))
  moreover have "?b = a \<longleftrightarrow> set (flat_addrs A a) = addrs_of a"
    using addr_lawsD(1,2,7) [OF assms(3)] by metis
  ultimately show ?thesis by (simp add: set_flat_addrs [OF assms(3)])
qed

theorem ticket_record_roundtrip_iff_witness:
  "let t = ticket_to_string demo_addr_api (ticket_new demo_addr_api demo_two_relays) in
   res_bind (endpoint_addr_from_ticket demo_keys demo_addr_api t) (ticket_from_endpoint_addr demo_keys demo_addr_api) \<noteq> Inr t"
  using ticket_record_roundtrip_iff [OF demo_pk_text demo_addr_laws(2,1,3) demo_addr_cases(2) HOL.refl]
    demo_addr_cases(4)
  by (simp add: Let_def)

text \<open>C36: The raw bytes of any ticket text can be turned back into a ticket text; it has the
  same bytes, names the same endpoint and carries the same address record.\<close>

theorem ticket_bytes_roundtrip:
  assumes "ticket_laws A" "ticket_bytes A s = Inr bs"
  shows "\<exists>s'. ticket_from_bytes A bs = Inr s' \<and> ticket_bytes A s' = Inr bs \<and>
     endpoint_id_from_ticket K A s' = endpoint_id_from_ticket K A s \<and>
     endpoint_addr_from_ticket K A s' = endpoint_addr_from_ticket K A s"
proof -
  obtain t where t: "ticket_from_str A s = Inr t" "bs = ticket_encode_bytes A t"
    using assms(2) by (auto simp: ticket_bytes_def result_simps)
  then show ?thesis
    by (simp add: ticket_from_bytes_def ticket_bytes_def endpoint_id_from_ticket_def
        endpoint_addr_from_ticket_def ticket_lawsD [OF assms(1)])
qed

theorem ticket_bytes_roundtrip_witness:
  "\<exists>bs s'. ticket_bytes demo_addr_api ''aaa'' = Inr bs \<and> ticket_from_bytes demo_addr_api bs = Inr s' \<and>
     endpoint_id_from_ticket demo_keys demo_addr_api s' = endpoint_id_from_ticket demo_keys demo_addr_api ''aaa''"
proof -
  have "ticket_bytes demo_addr_api ''aaa'' = Inr (replicate (to_nat (from_nat (length ''aaa'') :: demo_addr)) 0)"
    by (simp add: ticket_bytes_def demo_addr_api_def)
  from ticket_bytes_roundtrip [OF demo_addr_laws(3) this, of demo_keys] this show ?thesis by blast
qed

text \<open>C22: Converting a record reports the first problem in the order of the code: the id,
  then the direct addresses from left to right, then the relay.\<close>

theorem try_into_error_iff:
  fixes A :: "('pk, 'url, 'o, 'addr, 'ticket, 'err) addr_api"
  shows "EndpointAddr_try_into K A r = Inl e \<longleftrightarrow>
     (\<exists>x. pk_from_str K (ea_id r) = Inl x \<and> e = IrohError_msg (key_err K) x) \<or>
     is_ok (pk_from_str K (ea_id r)) \<and>
       ((\<exists>us d vs x. ea_direct_addresses r = us @ d # vs \<and> list_all (\<lambda>u. is_ok (SocketAddr_parse u)) us \<and>
           SocketAddr_parse d = Inl x \<and> e = IrohError_msg AddrParseError_to_string x) \<or>
        list_all (\<lambda>u. is_ok (SocketAddr_parse u)) (ea_direct_addresses r) \<and>
        (\<exists>u x. ea_relay_url r = Some u \<and> url_from_str A u = Inl x \<and> e = IrohError_msg (addr_err A) x))"
  unfolding push_direct_Inl [symmetric, where ?'url = 'url and ?'o = 'o]
  unfolding push_direct_ok [symmetric, where ?'url = 'url and ?'o = 'o]
  by (cases "pk_from_str K (ea_id r)"; cases "push_direct [] (ea_direct_addresses r) :: ('url, 'o) TransportAddr list iroh_result";
      cases "ea_relay_url r")
    (auto simp: EndpointAddr_try_into_def result_simps)

text \<open>Neither the order of the direct addresses of a record nor repetitions among them
  matter to the address it stands for.\<close>

lemma try_into_order:
  assumes "addr_laws A addrs_of" "ea_id r = ea_id r'" "ea_relay_url r = ea_relay_url r'"
    and same: "set (ea_direct_addresses r) = set (ea_direct_addresses r')"
    and ok: "EndpointAddr_try_into K A r = Inr a"
  shows "EndpointAddr_try_into K A r' = Inr a"
proof -
  let ?ds = "ea_direct_addresses r" and ?ds' = "ea_direct_addresses r'"
  obtain k xs socks where k: "pk_from_str K (ea_id r') = Inr k"
    and xs: "collect_res parse_direct ?ds = Inr socks" "push_direct [] ?ds = Inr xs" "xs = map Ip socks"
    using ok assms(2) by (auto simp: EndpointAddr_try_into_def result_simps push_direct_eq map_ok_eq_Inr)
  have "is_ok (collect_res parse_direct ?ds')"
    using xs(1) same by (metis collect_res_is_ok is_ok_simps(1))
  then obtain socks' where socks': "collect_res parse_direct ?ds' = Inr socks'" by (auto simp: is_ok_iff)
  have "set socks' = set socks"
    using collect_res_set [OF xs(1)] collect_res_set [OF socks'] same by simp
  then have "addr_from_parts A k (map Ip socks' @ zs) = addr_from_parts A k (map Ip socks @ zs)" for zs
    using addr_lawsD(1,2) [OF assms(1)] by (intro addr_lawsD(7) [OF assms(1)]) simp_all
  from this [of "[]"] this [of "[Relay _]"] show ?thesis
    using ok k xs socks' assms(2,3)
    by (cases "ea_relay_url r'") (auto simp: EndpointAddr_try_into_def result_simps push_direct_eq)
qed

end
