(* ===== verification/Config.thy ===== *)
theory Config
  imports Endpoint_Addr
begin

text \<open>
  config.rs: the options of \<^verbatim>\<open>IrohEndpoint::bind_with\<close> and \<^verbatim>\<open>builder_from_options\<close>, which
  turns them into a builder of the \<^verbatim>\<open>iroh\<close> crate.  The builder is a parameter; its
  laws say what each setter does to the configuration a builder stands for, read
  through a view.  The main result is a refinement: the view of the built builder is
  the configuration computed directly from the options.
\<close>

section \<open>The library's builder\<close>

datatype 'url RelayMode = RelayMode_Disabled | RelayMode_custom "'url list"

record ('b, 'url, 'sk, 'err) builder_api =
  b_empty :: 'b
  n0_apply :: "'b \<Rightarrow> 'b"
  b_relay_mode :: "'b \<Rightarrow> 'url RelayMode \<Rightarrow> 'b"
  b_clear_address_lookup :: "'b \<Rightarrow> 'b"
  b_secret_key :: "'b \<Rightarrow> 'sk \<Rightarrow> 'b"
  b_alpns :: "'b \<Rightarrow> bytes list \<Rightarrow> 'b"
  b_bind_addr :: "'b \<Rightarrow> string \<Rightarrow> 'err + 'b"
  b_external_addr :: "'b \<Rightarrow> SocketAddr \<Rightarrow> 'b"
  b_err :: "'err \<Rightarrow> string"

section \<open>Operations\<close>

datatype RelayModeOption = Default | Disabled | Custom (custom_urls: "string list")

record EndpointOptions =
  opt_alpns :: "string list"
  opt_secret_key :: "bytes option"
  opt_relay_mode :: "RelayModeOption option"
  opt_address_lookup :: bool
  opt_bind_addr :: "string option"
  opt_external_addrs :: "string list option"
  opt_warm_up_online :: bool

definition unwrap_or_default :: "RelayModeOption option \<Rightarrow> RelayModeOption" where
  "unwrap_or_default m = (case m of None \<Rightarrow> Default | Some x \<Rightarrow> x)"

definition apply_relay_mode ::
  "('pk, 'url, 'o, 'addr, 'ticket, 'aerr) addr_api \<Rightarrow> ('b, 'url, 'sk, 'err) builder_api \<Rightarrow>
   RelayModeOption \<Rightarrow> 'b \<Rightarrow> 'b iroh_result" where
  "apply_relay_mode A B relay_mode builder =
     (case relay_mode of
        Default \<Rightarrow> Inr builder
      | Disabled \<Rightarrow> Inr (b_relay_mode B builder RelayMode_Disabled)
      | Custom urls \<Rightarrow>
          res_bind (collect_res (\<lambda>u. map_err (IrohError_msg (addr_err A)) (url_from_str A u)) urls)
            (\<lambda>relay_urls. Inr (b_relay_mode B builder (RelayMode_custom relay_urls))))"

definition secret_key_error :: IrohError where
  "secret_key_error = Generic ''secret key must be 32 bytes''"

definition apply_secret_key ::
  "('pk, 'sk, 'sig, 'kerr) key_api \<Rightarrow> ('b, 'url, 'sk, 'err) builder_api \<Rightarrow>
   bytes option \<Rightarrow> 'b \<Rightarrow> 'b iroh_result" where
  "apply_secret_key K B secret_key builder =
     (case secret_key of
        None \<Rightarrow> Inr builder
      | Some bs \<Rightarrow>
          res_bind (map_err (\<lambda>_. secret_key_error) (slice_to_array bs))
            (\<lambda>key. Inr (b_secret_key B builder (sk_from_bytes K key))))"

definition apply_bind_addr ::
  "('b, 'url, 'sk, 'err) builder_api \<Rightarrow> string option \<Rightarrow> 'b \<Rightarrow> 'b iroh_result" where
  "apply_bind_addr B bind_addr builder =
     (case bind_addr of
        None \<Rightarrow> Inr builder
      | Some addr \<Rightarrow> map_err (IrohError_msg (b_err B)) (b_bind_addr B builder addr))"

fun add_external_addrs :: "('b, 'url, 'sk, 'err) builder_api \<Rightarrow> 'b \<Rightarrow> string list \<Rightarrow> 'b iroh_result" where
  "add_external_addrs B builder [] = Inr builder"
| "add_external_addrs B builder (addr # addrs) =
     res_bind (map_err (IrohError_msg AddrParseError_to_string) (SocketAddr_parse addr))
       (\<lambda>sock. add_external_addrs B (b_external_addr B builder sock) addrs)"

definition apply_external_addrs ::
  "('b, 'url, 'sk, 'err) builder_api \<Rightarrow> string list option \<Rightarrow> 'b \<Rightarrow> 'b iroh_result" where
  "apply_external_addrs B external_addrs builder =
     (case external_addrs of None \<Rightarrow> Inr builder | Some addrs \<Rightarrow> add_external_addrs B builder addrs)"

definition builder_from_options ::
  "('pk, 'sk, 'sig, 'kerr) key_api \<Rightarrow> ('pk, 'url, 'o, 'addr, 'ticket, 'aerr) addr_api \<Rightarrow>
   ('b, 'url, 'sk, 'err) builder_api \<Rightarrow> EndpointOptions \<Rightarrow> 'b iroh_result" where
  "builder_from_options K A B options =
     (let relay_mode = unwrap_or_default (opt_relay_mode options);
          builder = n0_apply B (b_empty B) in
      res_bind (apply_relay_mode A B relay_mode builder) (\<lambda>builder.
      let builder = (if \<not> opt_address_lookup options then b_clear_address_lookup B builder else builder) in
      res_bind (apply_secret_key K B (opt_secret_key options) builder) (\<lambda>builder.
      let builder = b_alpns B builder (map into_bytes (opt_alpns options)) in
      res_bind (apply_bind_addr B (opt_bind_addr options) builder) (\<lambda>builder.
      apply_external_addrs B (opt_external_addrs options) builder))))"

section \<open>The configuration a builder stands for\<close>

text \<open>
  \<open>bv_relay\<close> is \<open>None\<close> while the relays are those of the preset; \<open>bv_lookup\<close> lists the
  address lookup services.
\<close>

record ('url, 'sk, 'svc, 'bind) builder_view =
  bv_relay :: "'url RelayMode option"
  bv_lookup :: "'svc list"
  bv_secret :: "'sk option"
  bv_alpns :: "bytes list"
  bv_bind :: 'bind
  bv_external :: "SocketAddr list"

text \<open>
  The laws, per setter, as its documentation states them.  \<open>bind_err\<close> says which
  address texts \<^verbatim>\<open>bind_addr\<close> rejects (with the error), \<open>set_bind\<close> what an accepted one
  does to the sockets to bind.
\<close>

definition builder_laws ::
  "('b, 'url, 'sk, 'err) builder_api \<Rightarrow> ('b \<Rightarrow> ('url, 'sk, 'svc, 'bind) builder_view) \<Rightarrow>
   (string \<Rightarrow> 'err option) \<Rightarrow> (string \<Rightarrow> 'bind \<Rightarrow> 'bind) \<Rightarrow> bool" where
  "builder_laws B view bind_err set_bind \<longleftrightarrow>
     bv_relay (view (n0_apply B (b_empty B))) = None \<and>
     bv_external (view (n0_apply B (b_empty B))) = [] \<and>
     bv_secret (view (n0_apply B (b_empty B))) = None \<and>
     (\<forall>b m. view (b_relay_mode B b m) = (view b)\<lparr>bv_relay := Some m\<rparr>) \<and>
     (\<forall>b. view (b_clear_address_lookup B b) = (view b)\<lparr>bv_lookup := []\<rparr>) \<and>
     (\<forall>b k. view (b_secret_key B b k) = (view b)\<lparr>bv_secret := Some k\<rparr>) \<and>
     (\<forall>b ps. view (b_alpns B b ps) = (view b)\<lparr>bv_alpns := ps\<rparr>) \<and>
     (\<forall>b s e. bind_err s = Some e \<longrightarrow> b_bind_addr B b s = Inl e) \<and>
     (\<forall>b s. bind_err s = None \<longrightarrow>
        (\<exists>b'. b_bind_addr B b s = Inr b' \<and> view b' = (view b)\<lparr>bv_bind := set_bind s (bv_bind (view b))\<rparr>)) \<and>
     (\<forall>b a. view (b_external_addr B b a) = (view b)\<lparr>bv_external := bv_external (view b) @ [a]\<rparr>)"

lemma builder_lawsD:
  assumes "builder_laws B view bind_err set_bind"
  shows "bv_relay (view (n0_apply B (b_empty B))) = None"
    and "bv_external (view (n0_apply B (b_empty B))) = []"
    and "bv_secret (view (n0_apply B (b_empty B))) = None"
    and "view (b_relay_mode B b m) = (view b)\<lparr>bv_relay := Some m\<rparr>"
    and "view (b_clear_address_lookup B b) = (view b)\<lparr>bv_lookup := []\<rparr>"
    and "view (b_secret_key B b k) = (view b)\<lparr>bv_secret := Some k\<rparr>"
    and "view (b_alpns B b ps) = (view b)\<lparr>bv_alpns := ps\<rparr>"
    and "bind_err s = Some e \<Longrightarrow> b_bind_addr B b s = Inl e"
    and "bind_err s = None \<Longrightarrow>
        \<exists>b'. b_bind_addr B b s = Inr b' \<and> view b' = (view b)\<lparr>bv_bind := set_bind s (bv_bind (view b))\<rparr>"
    and "view (b_external_addr B b a) = (view b)\<lparr>bv_external := bv_external (view b) @ [a]\<rparr>"
  using assms by (auto simp: builder_laws_def)

text \<open>
  What the options mean, without a builder: each part is validated in the order of the
  code, then the configuration is the preset with each part replaced.
\<close>

definition relay_of ::
  "('pk, 'url, 'o, 'addr, 'ticket, 'aerr) addr_api \<Rightarrow> RelayModeOption option \<Rightarrow>
   'url RelayMode option iroh_result" where
  "relay_of A m =
     (case m of
        None \<Rightarrow> Inr None
      | Some Default \<Rightarrow> Inr None
      | Some Disabled \<Rightarrow> Inr (Some RelayMode_Disabled)
      | Some (Custom urls) \<Rightarrow>
          map_ok (\<lambda>us. Some (RelayMode_custom us))
            (collect_res (\<lambda>u. map_err (IrohError_msg (addr_err A)) (url_from_str A u)) urls))"

definition secret_of :: "('pk, 'sk, 'sig, 'kerr) key_api \<Rightarrow> bytes option \<Rightarrow> 'sk option iroh_result" where
  "secret_of K s =
     (case s of
        None \<Rightarrow> Inr None
      | Some bs \<Rightarrow>
          if length bs = 32 then Inr (Some (sk_from_bytes K (array_of bs))) else Inl secret_key_error)"

definition bind_of ::
  "('err \<Rightarrow> string) \<Rightarrow> (string \<Rightarrow> 'err option) \<Rightarrow> (string \<Rightarrow> 'bind \<Rightarrow> 'bind) \<Rightarrow> string option \<Rightarrow>
   ('bind \<Rightarrow> 'bind) iroh_result" where
  "bind_of d bind_err set_bind s =
     (case s of
        None \<Rightarrow> Inr (\<lambda>x. x)
      | Some a \<Rightarrow> (case bind_err a of None \<Rightarrow> Inr (set_bind a) | Some e \<Rightarrow> Inl (IrohError_msg d e)))"

definition external_of :: "string list option \<Rightarrow> SocketAddr list iroh_result" where
  "external_of s = (case s of None \<Rightarrow> Inr [] | Some addrs \<Rightarrow> collect_res parse_direct addrs)"

definition options_config ::
  "('pk, 'sk, 'sig, 'kerr) key_api \<Rightarrow> ('pk, 'url, 'o, 'addr, 'ticket, 'aerr) addr_api \<Rightarrow>
   ('err \<Rightarrow> string) \<Rightarrow> (string \<Rightarrow> 'err option) \<Rightarrow> (string \<Rightarrow> 'bind \<Rightarrow> 'bind) \<Rightarrow>
   ('url, 'sk, 'svc, 'bind) builder_view \<Rightarrow> EndpointOptions \<Rightarrow>
   ('url, 'sk, 'svc, 'bind) builder_view iroh_result" where
  "options_config K A d bind_err set_bind preset opts =
     res_bind (relay_of A (opt_relay_mode opts)) (\<lambda>relay.
     res_bind (secret_of K (opt_secret_key opts)) (\<lambda>secret.
     res_bind (bind_of d bind_err set_bind (opt_bind_addr opts)) (\<lambda>bind.
     res_bind (external_of (opt_external_addrs opts)) (\<lambda>external.
     Inr \<lparr>bv_relay = relay,
          bv_lookup = (if opt_address_lookup opts then bv_lookup preset else []),
          bv_secret = secret,
          bv_alpns = map as_bytes (opt_alpns opts),
          bv_bind = bind (bv_bind preset),
          bv_external = external\<rparr>))))"

section \<open>Each step refines its part\<close>

lemma view_relay_mode:
  assumes "builder_laws B view bind_err set_bind" "bv_relay (view b) = None"
  shows "map_ok view (apply_relay_mode A B (unwrap_or_default m) b) =
     map_ok (\<lambda>r. (view b)\<lparr>bv_relay := r\<rparr>) (relay_of A m)"
  using assms(2)
  by (auto simp: apply_relay_mode_def relay_of_def unwrap_or_default_def builder_lawsD(4) [OF assms(1)]
      map_ok_def res_bind_def split: option.splits RelayModeOption.splits sum.splits)

lemma view_secret_key:
  assumes "builder_laws B view bind_err set_bind" "bv_secret (view b) = None"
  shows "map_ok view (apply_secret_key K B s b) = map_ok (\<lambda>k. (view b)\<lparr>bv_secret := k\<rparr>) (secret_of K s)"
  using assms(2)
  by (auto simp: apply_secret_key_def secret_of_def slice_to_array_def builder_lawsD(6) [OF assms(1)]
      split: option.splits)

lemma view_bind_addr:
  assumes "builder_laws B view bind_err set_bind"
  shows "map_ok view (apply_bind_addr B s b) =
     map_ok (\<lambda>f. (view b)\<lparr>bv_bind := f (bv_bind (view b))\<rparr>) (bind_of (b_err B) bind_err set_bind s)"
proof (cases s)
  case (Some a)
  then show ?thesis
    using builder_lawsD(8) [OF assms, of a _ b] builder_lawsD(9) [OF assms, of a b]
    by (cases "bind_err a") (auto simp: apply_bind_addr_def bind_of_def)
qed (simp add: apply_bind_addr_def bind_of_def)

lemma view_add_external:
  assumes "builder_laws B view bind_err set_bind"
  shows "map_ok view (add_external_addrs B b addrs) =
     map_ok (\<lambda>socks. (view b)\<lparr>bv_external := bv_external (view b) @ socks\<rparr>) (collect_res parse_direct addrs)"
proof (induction addrs arbitrary: b)
  case (Cons a addrs)
  show ?case
  proof (cases "SocketAddr_parse a")
    case (Inr sock)
    then have "parse_direct a = Inr sock" by (simp add: parse_direct_def)
    then show ?thesis
      using Cons.IH [of "b_external_addr B b sock"] Inr
      by (cases "collect_res parse_direct addrs") (simp_all add: builder_lawsD(10) [OF assms])
  qed (simp add: parse_direct_def)
qed simp

lemma view_external:
  assumes "builder_laws B view bind_err set_bind" "bv_external (view b) = []"
  shows "map_ok view (apply_external_addrs B s b) =
     map_ok (\<lambda>socks. (view b)\<lparr>bv_external := socks\<rparr>) (external_of s)"
  using assms(2)
  by (cases s) (auto simp: apply_external_addrs_def external_of_def view_add_external [OF assms(1)])

lemma builder_refines:
  assumes laws: "builder_laws B view bind_err set_bind"
  shows "map_ok view (builder_from_options K A B opts) =
     options_config K A (b_err B) bind_err set_bind (view (n0_apply B (b_empty B))) opts"
proof -
  note setters = builder_lawsD(1-7) [OF laws]
  show ?thesis
    unfolding builder_from_options_def options_config_def Let_def
  proof (rule res_bind_refine [OF view_relay_mode [OF laws]], goal_cases)
    case 1
    show ?case by (simp add: setters)
  next
    case step1: (2 b1 relay)
    show ?case
    proof (rule res_bind_refine [OF view_secret_key [OF laws]], goal_cases)
      case 1
      show ?case by (simp add: step1 setters)
    next
      case step2: (2 b2 secret)
      show ?case
      proof (rule res_bind_refine [OF view_bind_addr [OF laws]], goal_cases)
        case step3: (1 b3 bind)
        have "bv_external (view b3) = []" by (simp add: step1 step2 step3 setters)
        from view_external [OF laws this, of "opt_external_addrs opts"] show ?case
          by (cases "external_of (opt_external_addrs opts)")
            (simp_all add: step1 step2 step3 setters into_bytes_as_bytes)
      qed
    qed
  qed
qed



section \<open>A concrete instance of the laws\<close>

text \<open>A builder that is its configuration, with one lookup service in the preset.\<close>

type_synonym demo_builder = "(string, 32 byte_array, nat, string list) builder_view"

definition demo_preset :: demo_builder where
  "demo_preset = \<lparr>bv_relay = None, bv_lookup = [0], bv_secret = None, bv_alpns = [], bv_bind = [], bv_external = []\<rparr>"

definition demo_bind_err :: "string \<Rightarrow> unit option" where
  "demo_bind_err s = (if s = [] then Some () else None)"

definition demo_builder_api :: "(demo_builder, string, 32 byte_array, unit) builder_api" where
  "demo_builder_api =
     \<lparr>b_empty = demo_preset\<lparr>bv_lookup := []\<rparr>, n0_apply = (\<lambda>b. b\<lparr>bv_lookup := [0]\<rparr>),
      b_relay_mode = (\<lambda>b m. b\<lparr>bv_relay := Some m\<rparr>), b_clear_address_lookup = (\<lambda>b. b\<lparr>bv_lookup := []\<rparr>),
      b_secret_key = (\<lambda>b k. b\<lparr>bv_secret := Some k\<rparr>), b_alpns = (\<lambda>b ps. b\<lparr>bv_alpns := ps\<rparr>),
      b_bind_addr = (\<lambda>b s. case demo_bind_err s of Some e \<Rightarrow> Inl e | None \<Rightarrow> Inr (b\<lparr>bv_bind := s # bv_bind b\<rparr>)),
      b_external_addr = (\<lambda>b a. b\<lparr>bv_external := bv_external b @ [a]\<rparr>), b_err = (\<lambda>_. ''bad bind address'')\<rparr>"

lemma demo_builder_laws: "builder_laws demo_builder_api (\<lambda>b. b) demo_bind_err Cons"
  by (simp add: builder_laws_def demo_builder_api_def demo_preset_def)

definition demo_options :: EndpointOptions where
  "demo_options =
     \<lparr>opt_alpns = [''azula''], opt_secret_key = Some (replicate 32 1), opt_relay_mode = Some Disabled,
      opt_address_lookup = False, opt_bind_addr = Some ''0.0.0.0:1'', opt_external_addrs = None,
      opt_warm_up_online = False\<rparr>"

section \<open>Properties\<close>

text \<open>C4: The builder made from the options stands for exactly the configuration the options
  describe: the preset with its relays replaced as asked, its lookup services kept or all
  removed, the given key, protocols, bind address and external addresses; and it fails
  with the same error when an option is invalid.\<close>

theorem builder_meets_config:
  assumes "builder_laws B view bind_err set_bind"
  shows "map_ok view (builder_from_options K A B opts) =
     options_config K A (b_err B) bind_err set_bind (view (n0_apply B (b_empty B))) opts"
  by (rule builder_refines [OF assms])

theorem builder_meets_config_witness:
  "\<exists>b. builder_from_options demo_keys demo_addr_api demo_builder_api demo_options = Inr b \<and>
     bv_relay b = Some RelayMode_Disabled \<and> bv_lookup b = [] \<and> bv_bind b = [''0.0.0.0:1''] \<and> bv_secret b \<noteq> None"
  using builder_meets_config [OF demo_builder_laws, of demo_keys demo_addr_api demo_options]
  by (auto simp: options_config_def demo_options_def relay_of_def secret_of_def bind_of_def external_of_def
      demo_bind_err_def demo_builder_api_def demo_preset_def result_simps)



text \<open>The relay choice and the lookup services are independent: with lookup off every
  service of the preset is gone and the relays are untouched, and no relay mode changes
  the services.  Leaving the relay mode out is the same as asking for the default.\<close>

lemma lookup_and_relay_independent:
  assumes laws: "builder_laws B view bind_err set_bind"
    and "builder_from_options K A B opts = Inr b" "preset = view (n0_apply B (b_empty B))"
  shows "bv_lookup (view b) = (if opt_address_lookup opts then bv_lookup preset else []) \<and>
     relay_of A (opt_relay_mode opts) = Inr (bv_relay (view b)) \<and>
     builder_from_options K A B (opts\<lparr>opt_relay_mode := None\<rparr>) =
       builder_from_options K A B (opts\<lparr>opt_relay_mode := Some Default\<rparr>)"
proof -
  have "options_config K A (b_err B) bind_err set_bind preset opts = Inr (view b)"
    using builder_refines [OF laws, of K A opts] assms(2,3) by simp
  then show ?thesis
    by (cases "view b")
      (auto simp: options_config_def result_simps builder_from_options_def unwrap_or_default_def)
qed

end
