(* ===== verification/Stream.thy ===== *)
theory Stream
  imports Iroh_Error
begin

text \<open>
  stream.rs: the three stream objects of the FFI.  The QUIC streams themselves
  (\<^verbatim>\<open>SendStream\<close>, \<^verbatim>\<open>RecvStream\<close>, \<^verbatim>\<open>VarInt\<close>, \<^verbatim>\<open>Connection::paths\<close>) are the library's, a record of
  functions over the state of the world.  Here every call finds the mutex of its half
  free; calls that compete for it are the subject of the theory \<open>Stream_Locks\<close>.
\<close>

section \<open>Durations and paths\<close>

record Duration =
  d_secs :: u64
  d_nanos :: u32

definition as_millis :: "Duration \<Rightarrow> u128" where
  "as_millis d = ucast (d_secs d) * 1000 + ucast (d_nanos d) div 1000000"

text \<open>The answers of the accessors of one open path of a connection.\<close>

record path_info =
  p_remote_addr :: string
  p_is_selected :: bool
  p_is_relay :: bool
  p_is_ip :: bool
  p_rtt :: Duration

section \<open>The library's streams\<close>

text \<open>
  \<open>rs_read\<close> and \<open>rs_read_exact\<close> take the caller's buffer and return it as the call
  leaves it.
\<close>

record ('w, 'conn, 'snd, 'rcv, 'vi, 'e) stream_api =
  conn_paths :: "'conn \<Rightarrow> 'w \<Rightarrow> path_info list"
  ss_write_all :: "'snd \<Rightarrow> bytes \<Rightarrow> ('w, 'e + unit) async"
  ss_finish :: "'snd \<Rightarrow> 'w \<Rightarrow> ('e + unit) \<times> 'w"
  ss_set_priority :: "'snd \<Rightarrow> i32 \<Rightarrow> 'w \<Rightarrow> ('e + unit) \<times> 'w"
  ss_priority :: "'snd \<Rightarrow> 'w \<Rightarrow> 'e + i32"
  ss_reset :: "'snd \<Rightarrow> 'vi \<Rightarrow> 'w \<Rightarrow> ('e + unit) \<times> 'w"
  ss_stopped :: "'snd \<Rightarrow> ('w, 'e + 'vi option) async"
  ss_id :: "'snd \<Rightarrow> u64"
  rs_read :: "'rcv \<Rightarrow> bytes \<Rightarrow> ('w, ('e + nat option) \<times> bytes) async"
  rs_read_exact :: "'rcv \<Rightarrow> bytes \<Rightarrow> ('w, ('e + unit) \<times> bytes) async"
  rs_read_to_end :: "'rcv \<Rightarrow> nat \<Rightarrow> ('w, 'e + bytes) async"
  rs_stop :: "'rcv \<Rightarrow> 'vi \<Rightarrow> 'w \<Rightarrow> ('e + unit) \<times> 'w"
  rs_id :: "'rcv \<Rightarrow> u64"
  varint_from_u64 :: "u64 \<Rightarrow> 'e + 'vi"
  varint_into_u64 :: "'vi \<Rightarrow> u64"
  st_err :: "'e \<Rightarrow> string"

section \<open>Stream objects\<close>

record ('conn, 'snd, 'rcv) IrohStream =
  is_conn :: 'conn
  is_send :: 'snd
  is_recv :: 'rcv

definition IrohStream_new :: "'conn \<Rightarrow> 'snd \<Rightarrow> 'rcv \<Rightarrow> ('conn, 'snd, 'rcv) IrohStream" where
  "IrohStream_new conn send recv = \<lparr>is_conn = conn, is_send = send, is_recv = recv\<rparr>"

record ('conn, 'snd) IrohSendStream =
  iss_conn :: 'conn
  iss_inner :: 'snd

definition IrohSendStream_new :: "'conn \<Rightarrow> 'snd \<Rightarrow> ('conn, 'snd) IrohSendStream" where
  "IrohSendStream_new conn send = \<lparr>iss_conn = conn, iss_inner = send\<rparr>"

record ('conn, 'rcv) IrohRecvStream =
  irs_conn :: 'conn
  irs_inner :: 'rcv

definition IrohRecvStream_new :: "'conn \<Rightarrow> 'rcv \<Rightarrow> ('conn, 'rcv) IrohRecvStream" where
  "IrohRecvStream_new conn recv = \<lparr>irs_conn = conn, irs_inner = recv\<rparr>"

section \<open>Operations of \<^verbatim>\<open>IrohStream\<close>\<close>

definition IrohStream_send_bytes ::
  "('w, 'conn, 'snd, 'rcv, 'vi, 'e, 'z) stream_api_scheme \<Rightarrow> ('conn, 'snd, 'rcv) IrohStream \<Rightarrow>
   bytes \<Rightarrow> ('w, unit iroh_result) async" where
  "IrohStream_send_bytes S self data =
     await_try (await_map (ss_write_all S (is_send self) data) (map_err (IrohError_msg (st_err S))))
       (\<lambda>_. ready (Inr ()))"

definition IrohStream_rtt_ms ::
  "('w, 'conn, 'snd, 'rcv, 'vi, 'e, 'z) stream_api_scheme \<Rightarrow> ('conn, 'snd, 'rcv) IrohStream \<Rightarrow>
   'w \<Rightarrow> u64 option" where
  "IrohStream_rtt_ms S self w =
     (let paths = conn_paths S (is_conn self) w in
      map_option (\<lambda>p. ucast (as_millis (p_rtt p))) (List.find p_is_selected paths))"

text \<open>\<^verbatim>\<open>buf.truncate(n)\<close> keeps the first \<open>n\<close> bytes, all of them when there are fewer.\<close>

definition truncate :: "nat \<Rightarrow> bytes \<Rightarrow> bytes" where
  "truncate n buf = take n buf"

definition IrohStream_recv ::
  "('w, 'conn, 'snd, 'rcv, 'vi, 'e, 'z) stream_api_scheme \<Rightarrow> ('conn, 'snd, 'rcv) IrohStream \<Rightarrow>
   u32 \<Rightarrow> ('w, bytes option iroh_result) async" where
  "IrohStream_recv S self mx =
     (let buf = replicate (unat mx) 0 in
      await_map (rs_read S (is_recv self) buf)
        (\<lambda>(r, buf). res_bind (map_err (IrohError_msg (st_err S)) r)
           (\<lambda>n. case n of Some n \<Rightarrow> Inr (Some (truncate n buf)) | None \<Rightarrow> Inr None)))"

definition IrohStream_finish ::
  "('w, 'conn, 'snd, 'rcv, 'vi, 'e, 'z) stream_api_scheme \<Rightarrow> ('conn, 'snd, 'rcv) IrohStream \<Rightarrow>
   ('w, unit iroh_result) async" where
  "IrohStream_finish S self w =
     (case ss_finish S (is_send self) w of
        (r, w') \<Rightarrow> Some (res_bind (map_err (IrohError_msg (st_err S)) r) (\<lambda>_. Inr ()), w'))"

definition IrohStream_read_exact ::
  "('w, 'conn, 'snd, 'rcv, 'vi, 'e, 'z) stream_api_scheme \<Rightarrow> ('conn, 'snd, 'rcv) IrohStream \<Rightarrow>
   u32 \<Rightarrow> ('w, bytes iroh_result) async" where
  "IrohStream_read_exact S self n =
     (let buf = replicate (unat n) 0 in
      await_map (rs_read_exact S (is_recv self) buf)
        (\<lambda>(r, buf). res_bind (map_err (IrohError_msg (st_err S)) r) (\<lambda>_. Inr buf)))"

definition IrohStream_read_to_end ::
  "('w, 'conn, 'snd, 'rcv, 'vi, 'e, 'z) stream_api_scheme \<Rightarrow> ('conn, 'snd, 'rcv) IrohStream \<Rightarrow>
   u32 \<Rightarrow> ('w, bytes iroh_result) async" where
  "IrohStream_read_to_end S self mx =
     await_map (rs_read_to_end S (is_recv self) (unat mx)) (map_err (IrohError_msg (st_err S)))"

definition IrohStream_set_priority ::
  "('w, 'conn, 'snd, 'rcv, 'vi, 'e, 'z) stream_api_scheme \<Rightarrow> ('conn, 'snd, 'rcv) IrohStream \<Rightarrow>
   i32 \<Rightarrow> 'w \<Rightarrow> unit iroh_result \<times> 'w" where
  "IrohStream_set_priority S self priority w =
     (case ss_set_priority S (is_send self) priority w of
        (r, w') \<Rightarrow> (map_err (IrohError_msg (st_err S)) r, w'))"

definition IrohStream_priority ::
  "('w, 'conn, 'snd, 'rcv, 'vi, 'e, 'z) stream_api_scheme \<Rightarrow> ('conn, 'snd, 'rcv) IrohStream \<Rightarrow>
   'w \<Rightarrow> i32 iroh_result" where
  "IrohStream_priority S self w = map_err (IrohError_msg (st_err S)) (ss_priority S (is_send self) w)"

definition IrohStream_reset ::
  "('w, 'conn, 'snd, 'rcv, 'vi, 'e, 'z) stream_api_scheme \<Rightarrow> ('conn, 'snd, 'rcv) IrohStream \<Rightarrow>
   u64 \<Rightarrow> 'w \<Rightarrow> unit iroh_result \<times> 'w" where
  "IrohStream_reset S self error_code w =
     (case map_err (IrohError_msg (st_err S)) (varint_from_u64 S error_code) of
        Inl e \<Rightarrow> (Inl e, w)
      | Inr code \<Rightarrow>
          (case ss_reset S (is_send self) code w of (r, w') \<Rightarrow> (map_err (IrohError_msg (st_err S)) r, w')))"

definition IrohStream_stop ::
  "('w, 'conn, 'snd, 'rcv, 'vi, 'e, 'z) stream_api_scheme \<Rightarrow> ('conn, 'snd, 'rcv) IrohStream \<Rightarrow>
   u64 \<Rightarrow> 'w \<Rightarrow> unit iroh_result \<times> 'w" where
  "IrohStream_stop S self error_code w =
     (case map_err (IrohError_msg (st_err S)) (varint_from_u64 S error_code) of
        Inl e \<Rightarrow> (Inl e, w)
      | Inr code \<Rightarrow>
          (case rs_stop S (is_recv self) code w of (r, w') \<Rightarrow> (map_err (IrohError_msg (st_err S)) r, w')))"

definition IrohStream_send_id ::
  "('w, 'conn, 'snd, 'rcv, 'vi, 'e, 'z) stream_api_scheme \<Rightarrow> ('conn, 'snd, 'rcv) IrohStream \<Rightarrow> u64" where
  "IrohStream_send_id S self = ss_id S (is_send self)"

definition IrohStream_recv_id ::
  "('w, 'conn, 'snd, 'rcv, 'vi, 'e, 'z) stream_api_scheme \<Rightarrow> ('conn, 'snd, 'rcv) IrohStream \<Rightarrow> u64" where
  "IrohStream_recv_id S self = rs_id S (is_recv self)"

section \<open>Operations of \<^verbatim>\<open>IrohSendStream\<close>\<close>

definition IrohSendStream_send_bytes ::
  "('w, 'conn, 'snd, 'rcv, 'vi, 'e, 'z) stream_api_scheme \<Rightarrow> ('conn, 'snd) IrohSendStream \<Rightarrow>
   bytes \<Rightarrow> ('w, unit iroh_result) async" where
  "IrohSendStream_send_bytes S self data =
     await_map (ss_write_all S (iss_inner self) data) (map_err (IrohError_msg (st_err S)))"

definition IrohSendStream_finish ::
  "('w, 'conn, 'snd, 'rcv, 'vi, 'e, 'z) stream_api_scheme \<Rightarrow> ('conn, 'snd) IrohSendStream \<Rightarrow>
   ('w, unit iroh_result) async" where
  "IrohSendStream_finish S self w =
     (case ss_finish S (iss_inner self) w of (r, w') \<Rightarrow> Some (map_err (IrohError_msg (st_err S)) r, w'))"

definition IrohSendStream_reset ::
  "('w, 'conn, 'snd, 'rcv, 'vi, 'e, 'z) stream_api_scheme \<Rightarrow> ('conn, 'snd) IrohSendStream \<Rightarrow>
   u64 \<Rightarrow> 'w \<Rightarrow> unit iroh_result \<times> 'w" where
  "IrohSendStream_reset S self error_code w =
     (case map_err (IrohError_msg (st_err S)) (varint_from_u64 S error_code) of
        Inl e \<Rightarrow> (Inl e, w)
      | Inr code \<Rightarrow>
          (case ss_reset S (iss_inner self) code w of (r, w') \<Rightarrow> (map_err (IrohError_msg (st_err S)) r, w')))"

definition IrohSendStream_set_priority ::
  "('w, 'conn, 'snd, 'rcv, 'vi, 'e, 'z) stream_api_scheme \<Rightarrow> ('conn, 'snd) IrohSendStream \<Rightarrow>
   i32 \<Rightarrow> 'w \<Rightarrow> unit iroh_result \<times> 'w" where
  "IrohSendStream_set_priority S self priority w =
     (case ss_set_priority S (iss_inner self) priority w of
        (r, w') \<Rightarrow> (map_err (IrohError_msg (st_err S)) r, w'))"

definition IrohSendStream_priority ::
  "('w, 'conn, 'snd, 'rcv, 'vi, 'e, 'z) stream_api_scheme \<Rightarrow> ('conn, 'snd) IrohSendStream \<Rightarrow>
   'w \<Rightarrow> i32 iroh_result" where
  "IrohSendStream_priority S self w = map_err (IrohError_msg (st_err S)) (ss_priority S (iss_inner self) w)"

definition IrohSendStream_stopped ::
  "('w, 'conn, 'snd, 'rcv, 'vi, 'e, 'z) stream_api_scheme \<Rightarrow> ('conn, 'snd) IrohSendStream \<Rightarrow>
   ('w, u64 option iroh_result) async" where
  "IrohSendStream_stopped S self =
     await_map (ss_stopped S (iss_inner self))
       (\<lambda>r. map_err (IrohError_msg (st_err S)) (map_ok (map_option (varint_into_u64 S)) r))"

definition IrohSendStream_id ::
  "('w, 'conn, 'snd, 'rcv, 'vi, 'e, 'z) stream_api_scheme \<Rightarrow> ('conn, 'snd) IrohSendStream \<Rightarrow> u64" where
  "IrohSendStream_id S self = ss_id S (iss_inner self)"

section \<open>Operations of \<^verbatim>\<open>IrohRecvStream\<close>\<close>

definition IrohRecvStream_recv ::
  "('w, 'conn, 'snd, 'rcv, 'vi, 'e, 'z) stream_api_scheme \<Rightarrow> ('conn, 'rcv) IrohRecvStream \<Rightarrow>
   u32 \<Rightarrow> ('w, bytes option iroh_result) async" where
  "IrohRecvStream_recv S self mx =
     (let buf = replicate (unat mx) 0 in
      await_map (rs_read S (irs_inner self) buf)
        (\<lambda>(r, buf). res_bind (map_err (IrohError_msg (st_err S)) r)
           (\<lambda>n. case n of Some n \<Rightarrow> Inr (Some (truncate n buf)) | None \<Rightarrow> Inr None)))"

definition IrohRecvStream_read_exact ::
  "('w, 'conn, 'snd, 'rcv, 'vi, 'e, 'z) stream_api_scheme \<Rightarrow> ('conn, 'rcv) IrohRecvStream \<Rightarrow>
   u32 \<Rightarrow> ('w, bytes iroh_result) async" where
  "IrohRecvStream_read_exact S self n =
     (let buf = replicate (unat n) 0 in
      await_map (rs_read_exact S (irs_inner self) buf)
        (\<lambda>(r, buf). res_bind (map_err (IrohError_msg (st_err S)) r) (\<lambda>_. Inr buf)))"

definition IrohRecvStream_read_to_end ::
  "('w, 'conn, 'snd, 'rcv, 'vi, 'e, 'z) stream_api_scheme \<Rightarrow> ('conn, 'rcv) IrohRecvStream \<Rightarrow>
   u32 \<Rightarrow> ('w, bytes iroh_result) async" where
  "IrohRecvStream_read_to_end S self mx =
     await_map (rs_read_to_end S (irs_inner self) (unat mx)) (map_err (IrohError_msg (st_err S)))"

definition IrohRecvStream_stop ::
  "('w, 'conn, 'snd, 'rcv, 'vi, 'e, 'z) stream_api_scheme \<Rightarrow> ('conn, 'rcv) IrohRecvStream \<Rightarrow>
   u64 \<Rightarrow> 'w \<Rightarrow> unit iroh_result \<times> 'w" where
  "IrohRecvStream_stop S self error_code w =
     (case map_err (IrohError_msg (st_err S)) (varint_from_u64 S error_code) of
        Inl e \<Rightarrow> (Inl e, w)
      | Inr code \<Rightarrow>
          (case rs_stop S (irs_inner self) code w of (r, w') \<Rightarrow> (map_err (IrohError_msg (st_err S)) r, w')))"

definition IrohRecvStream_id ::
  "('w, 'conn, 'snd, 'rcv, 'vi, 'e, 'z) stream_api_scheme \<Rightarrow> ('conn, 'rcv) IrohRecvStream \<Rightarrow> u64" where
  "IrohRecvStream_id S self = rs_id S (irs_inner self)"

section \<open>The contract of the receiving half\<close>

text \<open>
  The documented behaviour of \<^verbatim>\<open>RecvStream\<close> once the peer has finished the stream and all
  of it has arrived (\<open>fin\<close>), in terms of the bytes not read yet (\<open>unread\<close>): \<^verbatim>\<open>read\<close> fills
  a non-empty prefix of a non-empty buffer, or reports the end of the stream;
  \<^verbatim>\<open>read_exact\<close> fills the buffer or fails; \<^verbatim>\<open>read_to_end\<close> returns the rest or fails when it
  is longer than the limit.
\<close>

definition recv_laws ::
  "('w, 'conn, 'snd, 'rcv, 'vi, 'e, 'z) stream_api_scheme \<Rightarrow> ('rcv \<Rightarrow> 'w \<Rightarrow> bytes) \<Rightarrow> ('rcv \<Rightarrow> 'w \<Rightarrow> bool) \<Rightarrow> bool" where
  "recv_laws S unread fin \<longleftrightarrow>
     (\<forall>r w buf. fin r w \<and> unread r w \<noteq> [] \<and> buf \<noteq> [] \<longrightarrow>
        (\<exists>n w'. rs_read S r buf w = Some ((Inr (Some n), take n (unread r w) @ drop n buf), w') \<and>
           0 < n \<and> n \<le> length buf \<and> n \<le> length (unread r w) \<and>
           fin r w' \<and> unread r w' = drop n (unread r w))) \<and>
     (\<forall>r w buf. fin r w \<and> unread r w = [] \<and> buf \<noteq> [] \<longrightarrow>
        (\<exists>w'. rs_read S r buf w = Some ((Inr None, buf), w'))) \<and>
     (\<forall>r w buf. fin r w \<and> length buf \<le> length (unread r w) \<longrightarrow>
        (\<exists>w'. rs_read_exact S r buf w = Some ((Inr (), take (length buf) (unread r w)), w') \<and>
           fin r w' \<and> unread r w' = drop (length buf) (unread r w))) \<and>
     (\<forall>r w buf. fin r w \<and> length (unread r w) < length buf \<longrightarrow>
        (\<exists>e buf' w'. rs_read_exact S r buf w = Some ((Inl e, buf'), w'))) \<and>
     (\<forall>r w lim. fin r w \<and> length (unread r w) \<le> lim \<longrightarrow>
        (\<exists>w'. rs_read_to_end S r lim w = Some (Inr (unread r w), w'))) \<and>
     (\<forall>r w lim. fin r w \<and> lim < length (unread r w) \<longrightarrow>
        (\<exists>e w'. rs_read_to_end S r lim w = Some (Inl e, w')))"

text \<open>A client that calls \<^verbatim>\<open>recv\<close> until it returns \<^verbatim>\<open>None\<close>, giving up after \<open>k\<close> calls.\<close>

fun drain :: "nat \<Rightarrow> ('w, bytes option iroh_result) async \<Rightarrow> ('w, bytes iroh_result) async" where
  "drain 0 recv w = None"
| "drain (Suc k) recv w =
     do {
       (r, w') \<leftarrow> recv w;
       (case r of
          Inl e \<Rightarrow> Some (Inl e, w')
        | Inr None \<Rightarrow> Some (Inr [], w')
        | Inr (Some bs) \<Rightarrow> await_map (drain k recv) (map_ok (\<lambda>cs. bs @ cs)) w')
     }"

text \<open>
  Both receiving objects offer the same three reads.  The interface over an environment
  \<open>p\<close> (the library with its observers) and an object \<open>x\<close>:
\<close>

locale recv_half =
  fixes lawful :: "'p \<Rightarrow> bool"
    and unread :: "'p \<Rightarrow> 'x \<Rightarrow> 'w \<Rightarrow> bytes"
    and fin :: "'p \<Rightarrow> 'x \<Rightarrow> 'w \<Rightarrow> bool"
    and recv :: "'p \<Rightarrow> 'x \<Rightarrow> u32 \<Rightarrow> ('w, bytes option iroh_result) async"
    and read_exact :: "'p \<Rightarrow> 'x \<Rightarrow> u32 \<Rightarrow> ('w, bytes iroh_result) async"
    and read_to_end :: "'p \<Rightarrow> 'x \<Rightarrow> u32 \<Rightarrow> ('w, bytes iroh_result) async"
  assumes recv_some: "lawful p \<Longrightarrow> fin p x w \<Longrightarrow> unread p x w \<noteq> [] \<Longrightarrow> 0 < unat m \<Longrightarrow>
      \<exists>n w'. recv p x m w = Some (Inr (Some (take n (unread p x w))), w') \<and>
        0 < n \<and> n \<le> unat m \<and> fin p x w' \<and> unread p x w' = drop n (unread p x w)"
    and recv_none: "lawful p \<Longrightarrow> fin p x w \<Longrightarrow> unread p x w = [] \<Longrightarrow> 0 < unat m \<Longrightarrow>
      \<exists>w'. recv p x m w = Some (Inr None, w')"
    and read_exact_ok: "lawful p \<Longrightarrow> fin p x w \<Longrightarrow> unat n \<le> length (unread p x w) \<Longrightarrow>
      \<exists>w'. read_exact p x n w = Some (Inr (take (unat n) (unread p x w)), w') \<and>
        fin p x w' \<and> unread p x w' = drop (unat n) (unread p x w)"
    and read_exact_err: "lawful p \<Longrightarrow> fin p x w \<Longrightarrow> length (unread p x w) < unat n \<Longrightarrow>
      \<exists>e w'. read_exact p x n w = Some (Inl e, w')"
    and read_to_end_ok: "lawful p \<Longrightarrow> fin p x w \<Longrightarrow> length (unread p x w) \<le> unat m \<Longrightarrow>
      \<exists>w'. read_to_end p x m w = Some (Inr (unread p x w), w')"
    and read_to_end_err: "lawful p \<Longrightarrow> fin p x w \<Longrightarrow> unat m < length (unread p x w) \<Longrightarrow>
      \<exists>e w'. read_to_end p x m w = Some (Inl e, w')"
begin

text \<open>Chunked reading returns every byte once and in order, and stops.\<close>

lemma drain_all:
  assumes "lawful p" "0 < unat m"
  shows "fin p x w \<Longrightarrow> length (unread p x w) < k \<Longrightarrow>
     \<exists>w'. drain k (recv p x m) w = Some (Inr (unread p x w), w')"
proof (induction k arbitrary: w)
  case (Suc k)
  show ?case
  proof (cases "unread p x w = []")
    case True
    with recv_none [OF assms(1) Suc.prems(1) True assms(2)] show ?thesis by auto
  next
    case False
    obtain n w1 where step: "recv p x m w = Some (Inr (Some (take n (unread p x w))), w1)"
      "0 < n" "fin p x w1" "unread p x w1 = drop n (unread p x w)"
      using recv_some [OF assms(1) Suc.prems(1) False assms(2)] by blast
    have "0 < length (unread p x w)" using False by simp
    moreover have "length (unread p x w1) = length (unread p x w) - n" using step by simp
    ultimately have "length (unread p x w1) < k" using step(2) Suc.prems(2) by linarith
    with Suc.IH step obtain w2 where "drain k (recv p x m) w1 = Some (Inr (drop n (unread p x w)), w2)"
      by metis
    with step show ?thesis by simp
  qed
qed simp

text \<open>The chunk size does not matter, and neither does asking for everything at once.\<close>

lemma drain_read_to_end:
  assumes "lawful p" "fin p x w" "0 < unat m" "length (unread p x w) < k" "length (unread p x w) \<le> unat l"
  shows "map_option fst (drain k (recv p x m) w) = map_option fst (read_to_end p x l w)"
  using drain_all [OF assms(1,3,2,4)] read_to_end_ok [OF assms(1,2,5)] by auto

text \<open>A header read with \<^verbatim>\<open>read_exact\<close> and the body after it make up the stream.\<close>

lemma header_body:
  assumes "lawful p" "fin p x w" "unat n \<le> length (unread p x w)" "length (unread p x w) \<le> unat l"
  shows "\<exists>h b w1 w2. read_exact p x n w = Some (Inr h, w1) \<and> read_to_end p x l w1 = Some (Inr b, w2) \<and>
     length h = unat n \<and> h @ b = unread p x w"
proof -
  obtain w1 where w1: "read_exact p x n w = Some (Inr (take (unat n) (unread p x w)), w1)"
    "fin p x w1" "unread p x w1 = drop (unat n) (unread p x w)"
    using read_exact_ok [OF assms(1-3)] by blast
  moreover have "length (unread p x w1) \<le> unat l" using w1 assms(4) by simp
  ultimately show ?thesis
    using read_to_end_ok [OF assms(1) w1(2)] assms(3) by fastforce
qed

end

text \<open>The environment of an interpretation: the library's functions and the two observers.\<close>

type_synonym ('api, 'rcv, 'w) recv_env = "'api \<times> ('rcv \<Rightarrow> 'w \<Rightarrow> bytes) \<times> ('rcv \<Rightarrow> 'w \<Rightarrow> bool)"

lemma recv_lawsD:
  assumes "recv_laws S unread fin" "fin r w"
  shows "unread r w \<noteq> [] \<Longrightarrow> buf \<noteq> [] \<Longrightarrow>
        \<exists>n w'. rs_read S r buf w = Some ((Inr (Some n), take n (unread r w) @ drop n buf), w') \<and>
           0 < n \<and> n \<le> length buf \<and> n \<le> length (unread r w) \<and>
           fin r w' \<and> unread r w' = drop n (unread r w)"
    and "unread r w = [] \<Longrightarrow> buf \<noteq> [] \<Longrightarrow> \<exists>w'. rs_read S r buf w = Some ((Inr None, buf), w')"
    and "length buf \<le> length (unread r w) \<Longrightarrow>
        \<exists>w'. rs_read_exact S r buf w = Some ((Inr (), take (length buf) (unread r w)), w') \<and>
           fin r w' \<and> unread r w' = drop (length buf) (unread r w)"
    and "length (unread r w) < length buf \<Longrightarrow>
        \<exists>e buf' w'. rs_read_exact S r buf w = Some ((Inl e, buf'), w')"
    and "length (unread r w) \<le> lim \<Longrightarrow> \<exists>w'. rs_read_to_end S r lim w = Some (Inr (unread r w), w')"
    and "lim < length (unread r w) \<Longrightarrow> \<exists>e w'. rs_read_to_end S r lim w = Some (Inl e, w')"
  using assms unfolding recv_laws_def by metis+

interpretation bi_recv: recv_half
  "\<lambda>(S, unread, fin). recv_laws S unread fin"
  "\<lambda>(S, unread, fin) x. unread (is_recv x)"
  "\<lambda>(S, unread, fin) x. fin (is_recv x)"
  "\<lambda>(S, unread, fin). IrohStream_recv S"
  "\<lambda>(S, unread, fin). IrohStream_read_exact S"
  "\<lambda>(S, unread, fin). IrohStream_read_to_end S"
proof (unfold_locales, simp_all only: split_paired_all prod.case, goal_cases)
  case (1 S unread fin x w m)
  let ?buf = "replicate (unat m) (0 :: u8)"
  have "?buf \<noteq> []" using 1 by simp
  with 1 recv_lawsD(1) [of S unread fin "is_recv x" w ?buf]
  obtain n w' where "rs_read S (is_recv x) ?buf w =
      Some ((Inr (Some n), take n (unread (is_recv x) w) @ drop n ?buf), w')"
    "0 < n" "n \<le> unat m" "n \<le> length (unread (is_recv x) w)" "fin (is_recv x) w'"
    "unread (is_recv x) w' = drop n (unread (is_recv x) w)"
    by auto
  then show ?case
    by (intro exI [of _ n] exI [of _ w']) (simp add: IrohStream_recv_def truncate_def)
next
  case (2 S unread fin x w m)
  then show ?case
    using recv_lawsD(2) [of S unread fin "is_recv x" w "replicate (unat m) 0"]
    by (fastforce simp: IrohStream_recv_def)
next
  case (3 S unread fin x w n)
  then show ?case
    using recv_lawsD(3) [of S unread fin "is_recv x" w "replicate (unat n) 0"]
    by (fastforce simp: IrohStream_read_exact_def)
next
  case (4 S unread fin x w n)
  then show ?case
    using recv_lawsD(4) [of S unread fin "is_recv x" w "replicate (unat n) 0"]
    by (fastforce simp: IrohStream_read_exact_def)
next
  case (5 S unread fin x w m)
  then show ?case using recv_lawsD(5) [of S unread fin "is_recv x" w] by (fastforce simp: IrohStream_read_to_end_def)
next
  case (6 S unread fin x w m)
  then show ?case using recv_lawsD(6) [of S unread fin "is_recv x" w] by (fastforce simp: IrohStream_read_to_end_def)
qed

text \<open>
  A uni-directional receiving stream runs the same code on its half as a bidirectional
  one with any sending half, so its interpretation rests on the one above.
\<close>

definition as_bi :: "('conn, 'rcv) IrohRecvStream \<Rightarrow> ('conn, unit, 'rcv) IrohStream" where
  "as_bi x = IrohStream_new (irs_conn x) () (irs_inner x)"

definition forget_send ::
  "('w, 'conn, 'snd, 'rcv, 'vi, 'e, 'z) stream_api_scheme \<Rightarrow> ('w, 'conn, unit, 'rcv, 'vi, 'e) stream_api" where
  "forget_send S =
     \<lparr>conn_paths = conn_paths S, ss_write_all = (\<lambda>_ _ _. None), ss_finish = (\<lambda>_ w. (Inr (), w)),
      ss_set_priority = (\<lambda>_ _ w. (Inr (), w)), ss_priority = (\<lambda>_ _. Inr 0),
      ss_reset = (\<lambda>_ _ w. (Inr (), w)), ss_stopped = (\<lambda>_ _. None), ss_id = (\<lambda>_. 0),
      rs_read = rs_read S, rs_read_exact = rs_read_exact S, rs_read_to_end = rs_read_to_end S,
      rs_stop = rs_stop S, rs_id = rs_id S, varint_from_u64 = varint_from_u64 S,
      varint_into_u64 = varint_into_u64 S, st_err = st_err S\<rparr>"

lemma recv_laws_forget_send: "recv_laws (forget_send S) unread fin \<longleftrightarrow> recv_laws S unread fin"
  by (simp add: recv_laws_def forget_send_def)

lemma IrohRecvStream_as_bi:
  "IrohRecvStream_recv S x = IrohStream_recv (forget_send S) (as_bi x)"
  "IrohRecvStream_read_exact S x = IrohStream_read_exact (forget_send S) (as_bi x)"
  "IrohRecvStream_read_to_end S x = IrohStream_read_to_end (forget_send S) (as_bi x)"
  by (simp_all add: fun_eq_iff IrohRecvStream_recv_def IrohStream_recv_def IrohRecvStream_read_exact_def
      IrohStream_read_exact_def IrohRecvStream_read_to_end_def IrohStream_read_to_end_def
      as_bi_def IrohStream_new_def forget_send_def)

lemma is_recv_as_bi [simp]: "is_recv (as_bi x) = irs_inner x"
  by (simp add: as_bi_def IrohStream_new_def)

lemma recv_half_transfer:
  assumes "recv_half lawful unread fin recv read_exact read_to_end"
  shows "recv_half (\<lambda>p. lawful (f p)) (\<lambda>p x. unread (f p) (g x)) (\<lambda>p x. fin (f p) (g x))
     (\<lambda>p x. recv (f p) (g x)) (\<lambda>p x. read_exact (f p) (g x)) (\<lambda>p x. read_to_end (f p) (g x))"
  by (unfold_locales; rule assms [THEN recv_half.recv_some] assms [THEN recv_half.recv_none]
      assms [THEN recv_half.read_exact_ok] assms [THEN recv_half.read_exact_err]
      assms [THEN recv_half.read_to_end_ok] assms [THEN recv_half.read_to_end_err]; assumption)

interpretation uni_recv: recv_half
  "\<lambda>(S, unread, fin). recv_laws S unread fin"
  "\<lambda>(S, unread, fin) x. unread (irs_inner x)"
  "\<lambda>(S, unread, fin) x. fin (irs_inner x)"
  "\<lambda>(S, unread, fin). IrohRecvStream_recv S"
  "\<lambda>(S, unread, fin). IrohRecvStream_read_exact S"
  "\<lambda>(S, unread, fin). IrohRecvStream_read_to_end S"
  using recv_half_transfer [OF bi_recv.recv_half_axioms, of "\<lambda>p. (forget_send (fst p), snd p)" as_bi]
  by (simp add: split_def recv_laws_forget_send IrohRecvStream_as_bi [symmetric])

section \<open>A concrete instance of the laws\<close>

text \<open>
  A connection whose incoming bytes have all arrived and whose outgoing bytes are
  recorded; reads return as much as fits.
\<close>

record demo_net =
  dn_unread :: bytes
  dn_sent :: bytes
  dn_paths :: "path_info list"
  dn_queue :: "nat list"
  dn_arrived :: "nat list"

definition demo_stream_api :: "(demo_net, nat, unit, unit, u64, unit) stream_api" where
  "demo_stream_api =
     \<lparr>conn_paths = (\<lambda>_ w. dn_paths w),
      ss_write_all = (\<lambda>_ bs w. Some (Inr (), w\<lparr>dn_sent := dn_sent w @ bs\<rparr>)),
      ss_finish = (\<lambda>_ w. (Inr (), w)), ss_set_priority = (\<lambda>_ _ w. (Inr (), w)), ss_priority = (\<lambda>_ _. Inr 0),
      ss_reset = (\<lambda>_ _ w. (Inr (), w)), ss_stopped = (\<lambda>_ w. Some (Inr None, w)), ss_id = (\<lambda>_. 0),
      rs_read = (\<lambda>_ buf w.
        if dn_unread w = [] then Some ((Inr None, buf), w)
        else let n = min (length buf) (length (dn_unread w)) in
             Some ((Inr (Some n), take n (dn_unread w) @ drop n buf), w\<lparr>dn_unread := drop n (dn_unread w)\<rparr>)),
      rs_read_exact = (\<lambda>_ buf w.
        let n = length buf in
        if n \<le> length (dn_unread w)
        then Some ((Inr (), take n (dn_unread w)), w\<lparr>dn_unread := drop n (dn_unread w)\<rparr>)
        else Some ((Inl (), buf), w\<lparr>dn_unread := []\<rparr>)),
      rs_read_to_end = (\<lambda>_ lim w.
        if length (dn_unread w) \<le> lim then Some (Inr (dn_unread w), w\<lparr>dn_unread := []\<rparr>) else Some (Inl (), w)),
      rs_stop = (\<lambda>_ _ w. (Inr (), w)), rs_id = (\<lambda>_. 1),
      varint_from_u64 = (\<lambda>c. if unat c < 2 ^ 62 then Inr c else Inl ()), varint_into_u64 = (\<lambda>c. c),
      st_err = (\<lambda>_. ''stream error'')\<rparr>"

lemma demo_recv_laws: "recv_laws demo_stream_api (\<lambda>_. dn_unread) (\<lambda>_ _. True)"
  unfolding recv_laws_def
proof (intro conjI allI impI, goal_cases)
  case (1 r w buf)
  then show ?case
    by (intro exI [of _ "min (length buf) (length (dn_unread w))"]) (simp add: demo_stream_api_def Let_def)
qed (auto simp: demo_stream_api_def Let_def)

definition demo_world :: demo_net where
  "demo_world = \<lparr>dn_unread = [1, 2, 3, 4, 5], dn_sent = [], dn_paths = [], dn_queue = [], dn_arrived = []\<rparr>"

section \<open>Properties\<close>

text \<open>C10: Reading a finished bidirectional stream with \<^verbatim>\<open>recv\<close> until it reports the end returns
  exactly the bytes the peer sent, in order, whatever the positive chunk size; one
  \<^verbatim>\<open>read_to_end\<close> with a limit that is large enough returns the same.\<close>

theorem bi_stream_read_all:
  assumes "recv_laws S unread fin" "fin (is_recv x) w" "0 < unat m"
    and "length (unread (is_recv x) w) < k" "length (unread (is_recv x) w) \<le> unat l"
  shows "\<exists>w1 w2. drain k (IrohStream_recv S x m) w = Some (Inr (unread (is_recv x) w), w1) \<and>
     IrohStream_read_to_end S x l w = Some (Inr (unread (is_recv x) w), w2)"
  using bi_recv.drain_all [of "(S, unread, fin)" m x w k] bi_recv.read_to_end_ok [of "(S, unread, fin)" x w l] assms
  by auto

theorem bi_stream_read_all_witness:
  "\<exists>w1 w2. drain 6 (IrohStream_recv demo_stream_api (IrohStream_new 0 () ()) 2) demo_world = Some (Inr [1, 2, 3, 4, 5], w1) \<and>
     IrohStream_read_to_end demo_stream_api (IrohStream_new 0 () ()) 5 demo_world = Some (Inr [1, 2, 3, 4, 5], w2)"
  using bi_stream_read_all [OF demo_recv_laws, where x = "IrohStream_new (0 :: nat) () ()" and w = demo_world and m = 2 and k = 6 and l = 5]
  by (simp add: demo_world_def)

text \<open>The same for a receive-only stream.\<close>

lemma uni_stream_read_all:
  assumes "recv_laws S unread fin" "fin (irs_inner x) w" "0 < unat m"
    and "length (unread (irs_inner x) w) < k" "length (unread (irs_inner x) w) \<le> unat l"
  shows "\<exists>w1 w2. drain k (IrohRecvStream_recv S x m) w = Some (Inr (unread (irs_inner x) w), w1) \<and>
     IrohRecvStream_read_to_end S x l w = Some (Inr (unread (irs_inner x) w), w2)"
  using uni_recv.drain_all [of "(S, unread, fin)" m x w k] uni_recv.read_to_end_ok [of "(S, unread, fin)" x w l] assms
  by auto

text \<open>C28: A fixed-size header read with \<^verbatim>\<open>read_exact\<close> and a body read with \<^verbatim>\<open>read_to_end\<close> split a
  finished stream without losing or repeating a byte; a header longer than the stream
  and a body longer than the limit are errors.\<close>

theorem header_then_body:
  assumes "recv_laws S unread fin" "fin (is_recv x) w" "bs = unread (is_recv x) w"
  shows "if unat n \<le> length bs
     then \<exists>w1. IrohStream_read_exact S x n w = Some (Inr (take (unat n) bs), w1) \<and>
            (if length bs - unat n \<le> unat l
             then \<exists>w2. IrohStream_read_to_end S x l w1 = Some (Inr (drop (unat n) bs), w2)
             else \<exists>e w2. IrohStream_read_to_end S x l w1 = Some (Inl e, w2))
     else \<exists>e w1. IrohStream_read_exact S x n w = Some (Inl e, w1)"
proof (cases "unat n \<le> length bs")
  case True
  obtain w1 where w1: "IrohStream_read_exact S x n w = Some (Inr (take (unat n) bs), w1)"
    "fin (is_recv x) w1" "unread (is_recv x) w1 = drop (unat n) bs"
    using bi_recv.read_exact_ok [of "(S, unread, fin)" x w n] assms True by auto
  with True show ?thesis
    using bi_recv.read_to_end_ok [of "(S, unread, fin)" x w1 l]
      bi_recv.read_to_end_err [of "(S, unread, fin)" x w1 l] assms(1) by auto
next
  case False
  then show ?thesis using bi_recv.read_exact_err [of "(S, unread, fin)" x w n] assms by auto
qed

theorem header_then_body_witness:
  "\<exists>w1 w2. IrohStream_read_exact demo_stream_api (IrohStream_new 0 () ()) 2 demo_world = Some (Inr [1, 2], w1) \<and>
     IrohStream_read_to_end demo_stream_api (IrohStream_new 0 () ()) 3 w1 = Some (Inr [3, 4, 5], w2)"
  using header_then_body [OF demo_recv_laws, where x = "IrohStream_new (0 :: nat) () ()" and w = demo_world and n = 2 and l = 3]
  by (auto simp: demo_world_def)

end
