(* ===== verification/Connection.thy ===== *)
theory Connection
  imports Stream Rust_Str Iroh_Keys "HOL-Library.Countable"
begin

text \<open>
  connection.rs: the connection object, its streams and datagrams, its shutdown, and
  the summaries of its network paths.  The library's \<^verbatim>\<open>Connection\<close> extends the record of
  stream functions; \<^verbatim>\<open>ConnectionError\<close> has the three variants the source names and the
  rest.
\<close>

section \<open>The library's connections\<close>

datatype 'x ConnectionError =
  LocallyClosed | ApplicationClosed 'x | ConnectionClosed 'x | OtherConnectionError 'x

record ('w, 'conn, 'snd, 'rcv, 'vi, 'e, 'x, 'pk) conn_api =
  "('w, 'conn, 'snd, 'rcv, 'vi, 'e) stream_api" +
  cn_open_bi :: "'conn \<Rightarrow> ('w, 'x ConnectionError + 'snd \<times> 'rcv) async"
  cn_accept_bi :: "'conn \<Rightarrow> ('w, 'x ConnectionError + 'snd \<times> 'rcv) async"
  cn_open_uni :: "'conn \<Rightarrow> ('w, 'x ConnectionError + 'snd) async"
  cn_accept_uni :: "'conn \<Rightarrow> ('w, 'x ConnectionError + 'rcv) async"
  cn_send_datagram_wait :: "'conn \<Rightarrow> bytes \<Rightarrow> ('w, 'e + unit) async"
  cn_send_datagram :: "'conn \<Rightarrow> bytes \<Rightarrow> 'w \<Rightarrow> ('e + unit) \<times> 'w"
  cn_read_datagram :: "'conn \<Rightarrow> ('w, 'x ConnectionError + bytes) async"
  cn_max_datagram_size :: "'conn \<Rightarrow> 'w \<Rightarrow> nat option"
  cn_close :: "'conn \<Rightarrow> 'vi \<Rightarrow> bytes \<Rightarrow> 'w \<Rightarrow> 'w"
  cn_closed :: "'conn \<Rightarrow> ('w, 'x ConnectionError) async"
  cn_close_reason :: "'conn \<Rightarrow> 'w \<Rightarrow> 'x ConnectionError option"
  cn_remote_id :: "'conn \<Rightarrow> 'pk"
  cn_alpn :: "'conn \<Rightarrow> bytes"
  cn_stable_id :: "'conn \<Rightarrow> nat"
  cn_err_to_string :: "'x ConnectionError \<Rightarrow> string"

section \<open>Operations\<close>

record 'conn IrohConnection =
  ic_inner :: 'conn

definition IrohConnection_new :: "'conn \<Rightarrow> 'conn IrohConnection" where
  "IrohConnection_new inner = \<lparr>ic_inner = inner\<rparr>"

datatype PathKind = PathKind_Ip | PathKind_Relay

record ConnPath =
  cp_addr :: string
  cp_kind :: PathKind
  cp_is_selected :: bool
  cp_rtt_ms :: "u64 option"

definition map_conn_err ::
  "('w, 'conn, 'snd, 'rcv, 'vi, 'e, 'x, 'pk, 'z) conn_api_scheme \<Rightarrow> 'x ConnectionError \<Rightarrow> IrohError" where
  "map_conn_err C e =
     (case e of
        LocallyClosed \<Rightarrow> Generic (''closed: '' @ cn_err_to_string C e)
      | ApplicationClosed _ \<Rightarrow> Generic (''closed: '' @ cn_err_to_string C e)
      | ConnectionClosed _ \<Rightarrow> Generic (''closed: '' @ cn_err_to_string C e)
      | other \<Rightarrow> IrohError_msg (cn_err_to_string C) other)"

definition IrohConnection_open_bi ::
  "('w, 'conn, 'snd, 'rcv, 'vi, 'e, 'x, 'pk, 'z) conn_api_scheme \<Rightarrow> 'conn IrohConnection \<Rightarrow>
   ('w, ('conn, 'snd, 'rcv) IrohStream iroh_result) async" where
  "IrohConnection_open_bi C self =
     await_try (await_map (cn_open_bi C (ic_inner self)) (map_err (map_conn_err C)))
       (\<lambda>(send, recv). ready (Inr (IrohStream_new (ic_inner self) send recv)))"

definition IrohConnection_accept_bi ::
  "('w, 'conn, 'snd, 'rcv, 'vi, 'e, 'x, 'pk, 'z) conn_api_scheme \<Rightarrow> 'conn IrohConnection \<Rightarrow>
   ('w, ('conn, 'snd, 'rcv) IrohStream iroh_result) async" where
  "IrohConnection_accept_bi C self =
     await_try (await_map (cn_accept_bi C (ic_inner self)) (map_err (map_conn_err C)))
       (\<lambda>(send, recv). ready (Inr (IrohStream_new (ic_inner self) send recv)))"

definition IrohConnection_open_uni ::
  "('w, 'conn, 'snd, 'rcv, 'vi, 'e, 'x, 'pk, 'z) conn_api_scheme \<Rightarrow> 'conn IrohConnection \<Rightarrow>
   ('w, ('conn, 'snd) IrohSendStream iroh_result) async" where
  "IrohConnection_open_uni C self =
     await_try (await_map (cn_open_uni C (ic_inner self)) (map_err (map_conn_err C)))
       (\<lambda>send. ready (Inr (IrohSendStream_new (ic_inner self) send)))"

definition IrohConnection_accept_uni ::
  "('w, 'conn, 'snd, 'rcv, 'vi, 'e, 'x, 'pk, 'z) conn_api_scheme \<Rightarrow> 'conn IrohConnection \<Rightarrow>
   ('w, ('conn, 'rcv) IrohRecvStream iroh_result) async" where
  "IrohConnection_accept_uni C self =
     await_try (await_map (cn_accept_uni C (ic_inner self)) (map_err (map_conn_err C)))
       (\<lambda>recv. ready (Inr (IrohRecvStream_new (ic_inner self) recv)))"

definition IrohConnection_send_datagram ::
  "('w, 'conn, 'snd, 'rcv, 'vi, 'e, 'x, 'pk, 'z) conn_api_scheme \<Rightarrow> 'conn IrohConnection \<Rightarrow>
   bytes \<Rightarrow> ('w, unit iroh_result) async" where
  "IrohConnection_send_datagram C self data =
     await_map (cn_send_datagram_wait C (ic_inner self) data) (map_err (IrohError_msg (st_err C)))"

definition IrohConnection_try_send_datagram ::
  "('w, 'conn, 'snd, 'rcv, 'vi, 'e, 'x, 'pk, 'z) conn_api_scheme \<Rightarrow> 'conn IrohConnection \<Rightarrow>
   bytes \<Rightarrow> 'w \<Rightarrow> unit iroh_result \<times> 'w" where
  "IrohConnection_try_send_datagram C self data w =
     (case cn_send_datagram C (ic_inner self) data w of
        (r, w') \<Rightarrow> (map_err (IrohError_msg (st_err C)) r, w'))"

definition IrohConnection_read_datagram ::
  "('w, 'conn, 'snd, 'rcv, 'vi, 'e, 'x, 'pk, 'z) conn_api_scheme \<Rightarrow> 'conn IrohConnection \<Rightarrow>
   ('w, bytes iroh_result) async" where
  "IrohConnection_read_datagram C self =
     await_try (await_map (cn_read_datagram C (ic_inner self)) (map_err (map_conn_err C)))
       (\<lambda>bs. ready (Inr bs))"

definition IrohConnection_max_datagram_size ::
  "('w, 'conn, 'snd, 'rcv, 'vi, 'e, 'x, 'pk, 'z) conn_api_scheme \<Rightarrow> 'conn IrohConnection \<Rightarrow>
   'w \<Rightarrow> u64 option" where
  "IrohConnection_max_datagram_size C self w =
     map_option of_nat (cn_max_datagram_size C (ic_inner self) w)"

definition IrohConnection_shutdown ::
  "('w, 'conn, 'snd, 'rcv, 'vi, 'e, 'x, 'pk, 'z) conn_api_scheme \<Rightarrow> 'conn IrohConnection \<Rightarrow>
   u64 \<Rightarrow> bytes \<Rightarrow> 'w \<Rightarrow> unit iroh_result \<times> 'w" where
  "IrohConnection_shutdown C self error_code reason w =
     (case map_err (IrohError_msg (st_err C)) (varint_from_u64 C error_code) of
        Inl e \<Rightarrow> (Inl e, w)
      | Inr code \<Rightarrow> (Inr (), cn_close C (ic_inner self) code reason w))"

definition IrohConnection_closed ::
  "('w, 'conn, 'snd, 'rcv, 'vi, 'e, 'x, 'pk, 'z) conn_api_scheme \<Rightarrow> 'conn IrohConnection \<Rightarrow>
   ('w, string) async" where
  "IrohConnection_closed C self = await_map (cn_closed C (ic_inner self)) (cn_err_to_string C)"

definition IrohConnection_close_reason ::
  "('w, 'conn, 'snd, 'rcv, 'vi, 'e, 'x, 'pk, 'z) conn_api_scheme \<Rightarrow> 'conn IrohConnection \<Rightarrow>
   'w \<Rightarrow> string option" where
  "IrohConnection_close_reason C self w =
     map_option (cn_err_to_string C) (cn_close_reason C (ic_inner self) w)"

definition IrohConnection_remote_id ::
  "('pk, 'sk, 'sig, 'kerr) key_api \<Rightarrow> ('w, 'conn, 'snd, 'rcv, 'vi, 'e, 'x, 'pk, 'z) conn_api_scheme \<Rightarrow>
   'conn IrohConnection \<Rightarrow> string" where
  "IrohConnection_remote_id K C self = pk_to_string K (cn_remote_id C (ic_inner self))"

definition IrohConnection_alpn ::
  "('w, 'conn, 'snd, 'rcv, 'vi, 'e, 'x, 'pk, 'z) conn_api_scheme \<Rightarrow> 'conn IrohConnection \<Rightarrow> string" where
  "IrohConnection_alpn C self = from_utf8_lossy (cn_alpn C (ic_inner self))"

definition IrohConnection_stable_id ::
  "('w, 'conn, 'snd, 'rcv, 'vi, 'e, 'x, 'pk, 'z) conn_api_scheme \<Rightarrow> 'conn IrohConnection \<Rightarrow> u64" where
  "IrohConnection_stable_id C self = of_nat (cn_stable_id C (ic_inner self))"

definition IrohConnection_rtt_ms ::
  "('w, 'conn, 'snd, 'rcv, 'vi, 'e, 'x, 'pk, 'z) conn_api_scheme \<Rightarrow> 'conn IrohConnection \<Rightarrow>
   'w \<Rightarrow> u64 option" where
  "IrohConnection_rtt_ms C self w =
     map_option (\<lambda>p. ucast (as_millis (p_rtt p)))
       (List.find p_is_selected (conn_paths C (ic_inner self) w))"

definition IrohConnection_paths ::
  "('w, 'conn, 'snd, 'rcv, 'vi, 'e, 'x, 'pk, 'z) conn_api_scheme \<Rightarrow> 'conn IrohConnection \<Rightarrow>
   'w \<Rightarrow> ConnPath list" where
  "IrohConnection_paths C self w =
     map (\<lambda>p.
        let kind = (if p_is_relay p then PathKind_Relay else PathKind_Ip) in
        \<lparr>cp_addr = p_remote_addr p, cp_kind = kind, cp_is_selected = p_is_selected p,
         cp_rtt_ms = Some (ucast (as_millis (p_rtt p)))\<rparr>)
       (conn_paths C (ic_inner self) w)"

definition IrohConnection_conn_type ::
  "('w, 'conn, 'snd, 'rcv, 'vi, 'e, 'x, 'pk, 'z) conn_api_scheme \<Rightarrow> 'conn IrohConnection \<Rightarrow>
   'w \<Rightarrow> string" where
  "IrohConnection_conn_type C self w =
     (let paths = conn_paths C (ic_inner self) w in
      if paths = [] then ''none''
      else (case List.find p_is_selected paths of
              Some selected \<Rightarrow> (if p_is_relay selected then ''relay'' else ''direct'')
            | None \<Rightarrow>
                (case (list_ex p_is_ip paths, list_ex p_is_relay paths) of
                   (True, True) \<Rightarrow> ''mixed''
                 | (True, False) \<Rightarrow> ''direct''
                 | (False, True) \<Rightarrow> ''relay''
                 | (False, False) \<Rightarrow> ''none'')))"

section \<open>Round-trip times\<close>

lemma unat_word_bounds: "unat (x :: u64) < 2 ^ 64" "unat (y :: u32) < 2 ^ 32"
  using unsigned_less [of x, where ?'a = nat] unsigned_less [of y, where ?'a = nat] by simp_all

lemma unat_ucast_u128: "unat (ucast (x :: u64) :: u128) = unat x" "unat (ucast (y :: u32) :: u128) = unat y"
proof -
  have "unat x < 2 ^ 128" using unat_word_bounds(1) [of x] by simp
  then show "unat (ucast x :: u128) = unat x" by (simp add: unsigned_ucast_eq take_bit_nat_eq_self)
  have "unat y < 2 ^ 128" using unat_word_bounds(2) [of y] by simp
  then show "unat (ucast y :: u128) = unat y" by (simp add: unsigned_ucast_eq take_bit_nat_eq_self)
qed

text \<open>\<^verbatim>\<open>as_millis\<close> never wraps in its 128 bits.\<close>

lemma unat_as_millis: "unat (as_millis d) = unat (d_secs d) * 1000 + unat (d_nanos d) div 1000000"
proof -
  have secs: "unat (ucast (d_secs d) * 1000 :: u128) = unat (d_secs d) * 1000"
    using unat_word_bounds(1) [of "d_secs d"] by (simp add: unat_word_ariths unat_ucast_u128)
  have nanos: "unat (ucast (d_nanos d) div 1000000 :: u128) = unat (d_nanos d) div 1000000"
    by (simp add: unat_div unat_ucast_u128)
  have "unat (d_nanos d) div 1000000 < 2 ^ 32"
    using unat_word_bounds(2) [of "d_nanos d"] div_le_dividend [of "unat (d_nanos d)" 1000000] by linarith
  then have "unat (d_secs d) * 1000 + unat (d_nanos d) div 1000000 < 2 ^ 128"
    using unat_word_bounds(1) [of "d_secs d"] by simp
  then show ?thesis
    unfolding as_millis_def unat_word_ariths(1) secs nanos by simp
qed

lemma unat_rtt_ms:
  "unat (ucast (as_millis d) :: u64) = (unat (d_secs d) * 1000 + unat (d_nanos d) div 1000000) mod 2 ^ 64"
  by (simp add: unat_as_millis [symmetric] unsigned_ucast_eq take_bit_eq_mod)

section \<open>The kind of a connection, from its paths\<close>

text \<open>
  What \<^verbatim>\<open>conn_type\<close> documents, computed from the snapshot that \<^verbatim>\<open>paths\<close> exports: the kind of
  the selected path, or a summary of all when none is selected.
\<close>

definition kind_name :: "PathKind \<Rightarrow> string" where
  "kind_name k = (case k of PathKind_Ip \<Rightarrow> ''direct'' | PathKind_Relay \<Rightarrow> ''relay'')"

definition conn_type_of :: "ConnPath list \<Rightarrow> string" where
  "conn_type_of ps =
     (case List.find cp_is_selected ps of
        Some p \<Rightarrow> kind_name (cp_kind p)
      | None \<Rightarrow>
          if ps = [] then ''none''
          else if list_all (\<lambda>p. cp_kind p = PathKind_Ip) ps then ''direct''
          else if list_all (\<lambda>p. cp_kind p = PathKind_Relay) ps then ''relay''
          else ''mixed'')"

lemma find_map: "List.find P (map f xs) = map_option f (List.find (P \<circ> f) xs)"
  by (induction xs) auto

lemma find_paths:
  "List.find cp_is_selected (IrohConnection_paths C self w) =
     map_option (\<lambda>p. \<lparr>cp_addr = p_remote_addr p, cp_kind = (if p_is_relay p then PathKind_Relay else PathKind_Ip),
        cp_is_selected = p_is_selected p, cp_rtt_ms = Some (ucast (as_millis (p_rtt p)))\<rparr>)
       (List.find p_is_selected (conn_paths C (ic_inner self) w))"
  by (simp add: IrohConnection_paths_def find_map comp_def Let_def)

lemma find_None_list_all: "List.find P xs = None \<longleftrightarrow> list_all (\<lambda>x. \<not> P x) xs"
  by (induction xs) auto


section \<open>A concrete connection\<close>

definition demo_conn_api :: "(demo_net, nat, unit, unit, u64, unit, string, 32 byte_array) conn_api" where
  "demo_conn_api = stream_api.extend demo_stream_api
     (conn_api.fields
       (\<lambda>c w. Some (if c = 0 then Inl (ApplicationClosed ''bye'') else Inr ((), ()), w))
       (\<lambda>c w. Some (if c = 0 then Inl (ApplicationClosed ''bye'') else Inr ((), ()), w))
       (\<lambda>c w. Some (Inr (), w)) (\<lambda>c w. Some (Inr (), w))
       (\<lambda>c d w. Some (Inr (), w)) (\<lambda>c d w. (Inr (), w)) (\<lambda>c w. Some (Inl (OtherConnectionError ''timed out''), w))
       (\<lambda>c w. Some 1200) (\<lambda>c code reason w. w) (\<lambda>c w. None) (\<lambda>c w. None)
       (\<lambda>c. array_of (replicate 32 1)) (\<lambda>c. from_nat c) (\<lambda>c. c)
       (\<lambda>e. case e of LocallyClosed \<Rightarrow> ''closed by us'' | ApplicationClosed s \<Rightarrow> s | ConnectionClosed s \<Rightarrow> s
          | OtherConnectionError s \<Rightarrow> s))"

lemma demo_conn_simps [simp]:
  "conn_paths demo_conn_api = (\<lambda>_ w. dn_paths w)"
  "varint_from_u64 demo_conn_api = (\<lambda>c. if unat c < 2 ^ 62 then Inr c else Inl ())"
  "cn_accept_bi demo_conn_api c w = Some (if c = 0 then Inl (ApplicationClosed ''bye'') else Inr ((), ()), w)"
  "cn_alpn demo_conn_api c = from_nat c"
  by (simp_all add: demo_conn_api_def stream_api.defs conn_api.defs demo_stream_api_def)

definition demo_path :: "bool \<Rightarrow> bool \<Rightarrow> bool \<Rightarrow> path_info" where
  "demo_path sel relay ip =
     \<lparr>p_remote_addr = ''peer'', p_is_selected = sel, p_is_relay = relay, p_is_ip = ip,
      p_rtt = \<lparr>d_secs = 1, d_nanos = 500000000\<rparr>\<rparr>"

section \<open>Properties\<close>

text \<open>The text a failed library call turns into.\<close>

definition closing :: "'x ConnectionError \<Rightarrow> bool" where
  "closing e \<longleftrightarrow> (case e of OtherConnectionError _ \<Rightarrow> False | _ \<Rightarrow> True)"

definition conn_error_text :: "('x ConnectionError \<Rightarrow> string) \<Rightarrow> 'x ConnectionError \<Rightarrow> string" where
  "conn_error_text d e = (if closing e then ''closed: '' else []) @ d e"

lemma map_conn_err_eq: "map_conn_err C e = Generic (conn_error_text (cn_err_to_string C) e)"
  by (cases e) (simp_all add: map_conn_err_def conn_error_text_def closing_def IrohError_msg_def)

text \<open>When the library fails to open or accept a stream or to read a datagram, the call
  fails with the library's text, marked with \<^verbatim>\<open>closed: \<close> exactly when the connection was
  closed by either side, in the state the library left; when the library succeeds, the
  call returns the stream bound to this connection, or the datagram.\<close>

lemma conn_calls_map_results:
  "IrohConnection_open_bi C self w =
     map_option (\<lambda>(r, w'). (case r of Inl e \<Rightarrow> Inl (Generic (conn_error_text (cn_err_to_string C) e))
       | Inr (s, v) \<Rightarrow> Inr \<lparr>is_conn = ic_inner self, is_send = s, is_recv = v\<rparr>, w')) (cn_open_bi C (ic_inner self) w) \<and>
   IrohConnection_accept_bi C self w =
     map_option (\<lambda>(r, w'). (case r of Inl e \<Rightarrow> Inl (Generic (conn_error_text (cn_err_to_string C) e))
       | Inr (s, v) \<Rightarrow> Inr \<lparr>is_conn = ic_inner self, is_send = s, is_recv = v\<rparr>, w')) (cn_accept_bi C (ic_inner self) w) \<and>
   IrohConnection_open_uni C self w =
     map_option (\<lambda>(r, w'). (case r of Inl e \<Rightarrow> Inl (Generic (conn_error_text (cn_err_to_string C) e))
       | Inr s \<Rightarrow> Inr \<lparr>iss_conn = ic_inner self, iss_inner = s\<rparr>, w')) (cn_open_uni C (ic_inner self) w) \<and>
   IrohConnection_accept_uni C self w =
     map_option (\<lambda>(r, w'). (case r of Inl e \<Rightarrow> Inl (Generic (conn_error_text (cn_err_to_string C) e))
       | Inr v \<Rightarrow> Inr \<lparr>irs_conn = ic_inner self, irs_inner = v\<rparr>, w')) (cn_accept_uni C (ic_inner self) w) \<and>
   IrohConnection_read_datagram C self w =
     map_option (\<lambda>(r, w'). (case r of Inl e \<Rightarrow> Inl (Generic (conn_error_text (cn_err_to_string C) e))
       | Inr bs \<Rightarrow> Inr bs, w')) (cn_read_datagram C (ic_inner self) w)"
  by (auto simp: IrohConnection_open_bi_def IrohConnection_accept_bi_def IrohConnection_open_uni_def
      IrohConnection_accept_uni_def IrohConnection_read_datagram_def IrohStream_new_def IrohSendStream_new_def
      IrohRecvStream_new_def map_conn_err_eq await_try_def await_map_def map_option_case
      split: option.splits sum.splits)



text \<open>C38: On a path of another transport, which is neither IP nor relay, the two disagree while
  no path is selected: the connection reports none although it has paths, all of which
  \<^verbatim>\<open>paths\<close> exports as IP.\<close>

theorem conn_type_other_transport:
  assumes "ps = conn_paths C (ic_inner self) w" "ps \<noteq> []"
    and "list_all (\<lambda>p. \<not> p_is_selected p \<and> \<not> p_is_ip p \<and> \<not> p_is_relay p) ps"
  shows "IrohConnection_conn_type C self w = ''none'' \<and>
     conn_type_of (IrohConnection_paths C self w) = ''direct'' \<and>
     length (IrohConnection_paths C self w) = length ps"
proof -
  have none: "List.find p_is_selected ps = None" "\<not> list_ex p_is_ip ps" "\<not> list_ex p_is_relay ps"
    using assms(3) by (auto simp: find_None_list_all list_all_iff list_ex_iff)
  have ip: "list_all (\<lambda>p. cp_kind p = PathKind_Ip) (IrohConnection_paths C self w)"
    using assms(1,3) by (auto simp: IrohConnection_paths_def list_all_iff Let_def)
  show ?thesis
    using assms(1,2) none ip
    by (auto simp: IrohConnection_conn_type_def conn_type_of_def find_paths Let_def)
      (auto simp: IrohConnection_paths_def)
qed

theorem conn_type_other_transport_witness:
  "IrohConnection_conn_type demo_conn_api (IrohConnection_new 3)
     (demo_world\<lparr>dn_paths := [demo_path False False False]\<rparr>) = ''none''"
  using conn_type_other_transport [OF HOL.refl, of demo_conn_api "IrohConnection_new 3"
      "demo_world\<lparr>dn_paths := [demo_path False False False]\<rparr>"]
  by (simp add: demo_path_def)

text \<open>C33: The round-trip time of a connection, that of any stream on it, and that of the first
  selected entry of \<^verbatim>\<open>paths\<close> are the same value; it is the path's time in whole milliseconds
  modulo 2^64, so it is exact up to \<^verbatim>\<open>u64::MAX\<close> milliseconds and absent when no path is selected.\<close>

theorem rtt_ms_consistent:
  "IrohConnection_rtt_ms C self w =
     Option.bind (List.find cp_is_selected (IrohConnection_paths C self w)) cp_rtt_ms \<and>
   IrohStream_rtt_ms C (IrohStream_new (ic_inner self) s r) w = IrohConnection_rtt_ms C self w \<and>
   map_option unat (IrohConnection_rtt_ms C self w) =
     map_option (\<lambda>p. (unat (d_secs (p_rtt p)) * 1000 + unat (d_nanos (p_rtt p)) div 1000000) mod 2 ^ 64)
       (List.find p_is_selected (conn_paths C (ic_inner self) w))"
proof -
  have "map_option unat (IrohConnection_rtt_ms C self w) =
     map_option (\<lambda>p. (unat (d_secs (p_rtt p)) * 1000 + unat (d_nanos (p_rtt p)) div 1000000) mod 2 ^ 64)
       (List.find p_is_selected (conn_paths C (ic_inner self) w))"
    unfolding IrohConnection_rtt_ms_def option.map_comp comp_def unat_rtt_ms ..
  then show ?thesis
    by (cases "List.find p_is_selected (conn_paths C (ic_inner self) w)")
      (simp_all add: IrohConnection_rtt_ms_def IrohStream_rtt_ms_def IrohStream_new_def find_paths)
qed

text \<open>The documented range of \<^verbatim>\<open>VarInt\<close>: 62 bits.\<close>

definition varint_law :: "('w, 'conn, 'snd, 'rcv, 'vi, 'e, 'z) stream_api_scheme \<Rightarrow> bool" where
  "varint_law S \<longleftrightarrow> (\<forall>c. is_ok (varint_from_u64 S c) \<longleftrightarrow> unat c < 2 ^ 62)"

lemma demo_varint: "varint_law demo_conn_api"
  by (auto simp: varint_law_def is_ok_iff)

text \<open>C34: An error code of 2^62 or more is refused by every call that takes one (reset and stop
  of all streams, shutdown of a connection) before anything is sent: the call returns the
  same error everywhere and leaves the connection as it was.\<close>

theorem error_code_out_of_range:
  assumes "varint_law C" "2 ^ 62 \<le> unat code"
  shows "\<exists>e. IrohStream_reset C x code w = (Inl e, w) \<and> IrohStream_stop C x code w = (Inl e, w) \<and>
     IrohSendStream_reset C y code w = (Inl e, w) \<and> IrohRecvStream_stop C z code w = (Inl e, w) \<and>
     IrohConnection_shutdown C self code reason w = (Inl e, w)"
proof -
  have "\<not> is_ok (varint_from_u64 C code)" using assms by (auto simp: varint_law_def)
  then obtain e where "varint_from_u64 C code = Inl e" by (cases "varint_from_u64 C code") auto
  then show ?thesis
    by (simp add: IrohStream_reset_def IrohStream_stop_def IrohSendStream_reset_def IrohRecvStream_stop_def
        IrohConnection_shutdown_def)
qed

theorem error_code_out_of_range_witness:
  "\<exists>e. IrohStream_reset demo_conn_api (IrohStream_new 3 () ()) (2 ^ 62) demo_world = (Inl e, demo_world) \<and>
     IrohConnection_shutdown demo_conn_api (IrohConnection_new 3) (2 ^ 62) [] demo_world = (Inl e, demo_world)"
  using error_code_out_of_range [OF demo_varint, of "2 ^ 62" "IrohStream_new 3 () ()" demo_world
      "IrohSendStream_new 3 ()" "IrohRecvStream_new 3 ()" "IrohConnection_new 3" "[]"]
  by auto

end
