(* ===== verification/Crypto.thy ===== *)
theory Crypto
  imports Iroh_Keys
begin

text \<open>
  crypto.rs: Ed25519 on raw bytes, without a bound endpoint.  The second half states
  the contract that this interface shares with the signing methods of a bound endpoint
  (endpoint.rs) as the locale \<open>signature_scheme\<close>.
\<close>

section \<open>Operations\<close>

record Ed25519Keypair =
  kp_secret :: bytes
  kp_public :: bytes

text \<open>\<^verbatim>\<open>SecretKey::generate\<close> draws from the process's random generator: \<open>gen\<close> and its state.\<close>

definition generate_ed25519_keypair ::
  "('pk, 'sk, 'sig, 'err) key_api \<Rightarrow> ('rng \<Rightarrow> 'sk \<times> 'rng) \<Rightarrow> 'rng \<Rightarrow> Ed25519Keypair \<times> 'rng" where
  "generate_ed25519_keypair K gen rng =
     (case gen rng of
        (secret, rng') \<Rightarrow>
          let public = sk_public K secret in
          (\<lparr>kp_secret = to_vec (sk_to_bytes K secret), kp_public = to_vec (pk_as_bytes K public)\<rparr>, rng'))"

definition ed25519_sign :: "('pk, 'sk, 'sig, 'err) key_api \<Rightarrow> bytes \<Rightarrow> bytes \<Rightarrow> bytes iroh_result" where
  "ed25519_sign K secret data =
     res_bind (map_err (IrohError_msg (key_err K)) (sk_try_from K secret))
       (\<lambda>key. Inr (to_vec (sig_to_bytes K (sk_sign K key data))))"

definition ed25519_verify :: "('pk, 'sk, 'sig, 'err) key_api \<Rightarrow> bytes \<Rightarrow> bytes \<Rightarrow> bytes \<Rightarrow> bool" where
  "ed25519_verify K public data signature =
     (case pk_try_from K public of
        Inl _ \<Rightarrow> False
      | Inr key \<Rightarrow>
          (case sig_try_from K signature of
             Inl _ \<Rightarrow> False
           | Inr sig \<Rightarrow> is_ok (pk_verify K key data sig)))"

definition ed25519_public_from_secret :: "('pk, 'sk, 'sig, 'err) key_api \<Rightarrow> bytes \<Rightarrow> bytes iroh_result" where
  "ed25519_public_from_secret K secret =
     res_bind (map_err (IrohError_msg (key_err K)) (sk_try_from K secret))
       (\<lambda>key. Inr (to_vec (pk_as_bytes K (sk_public K key))))"

section \<open>Behaviour\<close>

lemma ed25519_sign_ok:
  "key_laws K \<Longrightarrow> ed25519_sign K (to_vec a) data = Inr (to_vec (sig_to_bytes K (sk_sign K (sk_from_bytes K a) data)))"
  by (simp add: ed25519_sign_def key_lawsD)

lemma ed25519_public_ok:
  "key_laws K \<Longrightarrow>
     ed25519_public_from_secret K (to_vec a) = Inr (to_vec (pk_as_bytes K (sk_public K (sk_from_bytes K a))))"
  by (simp add: ed25519_public_from_secret_def key_lawsD)

lemma ed25519_sign_is_ok: "key_laws K \<Longrightarrow> is_ok (ed25519_sign K secret data) \<longleftrightarrow> length secret = 32"
  by (erule sk_try_from_cases [of K secret]) (auto simp: ed25519_sign_def)

lemma ed25519_public_is_ok: "key_laws K \<Longrightarrow> is_ok (ed25519_public_from_secret K secret) \<longleftrightarrow> length secret = 32"
  by (erule sk_try_from_cases [of K secret]) (auto simp: ed25519_public_from_secret_def)

lemma ed25519_verify_own:
  assumes "key_laws K"
  shows "ed25519_verify K (to_vec (pk_as_bytes K (sk_public K k))) m (to_vec (sig_to_bytes K (sk_sign K k m)))"
  using key_lawsD [OF assms] by (simp add: ed25519_verify_def)

section \<open>The signing contract\<close>

text \<open>
  What a signer promises: a signer either has both a public identity and signatures on
  every message, or neither; and what it signs verifies under its identity.  The first
  parameter says which instances of the key library the contract is claimed for.
\<close>

locale signature_scheme =
  fixes lawful :: "'api \<Rightarrow> bool"
    and sign :: "'api \<Rightarrow> 'signer \<Rightarrow> bytes \<Rightarrow> bytes iroh_result"
    and identity :: "'api \<Rightarrow> 'signer \<Rightarrow> 'id iroh_result"
    and verify :: "'api \<Rightarrow> 'id \<Rightarrow> bytes \<Rightarrow> bytes \<Rightarrow> bool"
  assumes sign_identity: "lawful K \<Longrightarrow> is_ok (sign K s m) \<longleftrightarrow> is_ok (identity K s)"
    and verify_sign: "lawful K \<Longrightarrow> sign K s m = Inr g \<Longrightarrow> identity K s = Inr i \<Longrightarrow> verify K i m g"
    and sign_length: "lawful K \<Longrightarrow> sign K s m = Inr g \<Longrightarrow> length g = 64"
    and verify_length: "lawful K \<Longrightarrow> verify K i m g \<Longrightarrow> length g = 64"
begin

text \<open>A signer with an identity signs every message, and each signature verifies.\<close>

lemma sign_then_verify:
  assumes "lawful K" "identity K s = Inr i"
  shows "\<exists>g. sign K s m = Inr g \<and> length g = 64 \<and> verify K i m g"
proof -
  have "is_ok (sign K s m)" using assms sign_identity by simp
  then obtain g where "sign K s m = Inr g" by (auto simp: is_ok_iff)
  with assms verify_sign sign_length show ?thesis by blast
qed

text \<open>Signing a batch of messages succeeds as a whole, and every signature verifies.\<close>

lemma sign_batch:
  assumes "lawful K" "identity K s = Inr i"
  shows "\<exists>gs. collect_res (sign K s) ms = Inr gs \<and> list_all2 (verify K i) ms gs"
proof (induction ms)
  case (Cons m ms)
  then obtain gs where "collect_res (sign K s) ms = Inr gs" "list_all2 (verify K i) ms gs" by blast
  moreover obtain g where "sign K s m = Inr g" "verify K i m g" using sign_then_verify [OF assms] by blast
  ultimately show ?case by simp
qed simp

lemma verify_wrong_length: "lawful K \<Longrightarrow> length g \<noteq> 64 \<Longrightarrow> \<not> verify K i m g"
  using verify_length by blast

end

interpretation raw_sig: signature_scheme key_laws ed25519_sign ed25519_public_from_secret ed25519_verify
proof
  fix K :: "('pk, 'sk, 'sig, 'err) key_api" and s m g i
  assume K: "key_laws K"
  show "is_ok (ed25519_sign K s m) = is_ok (ed25519_public_from_secret K s)"
    using K by (simp add: ed25519_sign_is_ok ed25519_public_is_ok)
  show "ed25519_verify K i m g" if "ed25519_sign K s m = Inr g" "ed25519_public_from_secret K s = Inr i"
    using K that
    by (cases rule: sk_try_from_cases [of K s])
      (auto simp: ed25519_sign_def ed25519_public_from_secret_def ed25519_verify_own [OF K])
  show "length g = 64" if "ed25519_sign K s m = Inr g"
    using that by (auto simp: ed25519_sign_def result_simps)
  show "length g = 64" if "ed25519_verify K i m g"
    using that key_lawsD(9) [OF K, of g]
    by (auto simp: ed25519_verify_def is_err_iff split: sum.splits)
qed

text \<open>A generated keypair has 32 bytes in each part, its public part is the one derived
  from its secret, and what the secret signs verifies under the public part.\<close>

lemma keypair_ok:
  assumes "key_laws K" "generate_ed25519_keypair K gen rng = (kp, rng')"
  shows "length (kp_secret kp) = 32 \<and> length (kp_public kp) = 32 \<and>
     ed25519_public_from_secret K (kp_secret kp) = Inr (kp_public kp) \<and>
     (\<exists>g. ed25519_sign K (kp_secret kp) m = Inr g \<and> ed25519_verify K (kp_public kp) m g)"
proof -
  obtain k where kp: "kp = \<lparr>kp_secret = to_vec (sk_to_bytes K k), kp_public = to_vec (pk_as_bytes K (sk_public K k))\<rparr>"
    using assms(2) by (auto simp: generate_ed25519_keypair_def Let_def split: prod.splits)
  have "ed25519_public_from_secret K (kp_secret kp) = Inr (kp_public kp)"
    by (simp add: kp ed25519_public_ok [OF assms(1)] key_lawsD(6) [OF assms(1)])
  then show ?thesis
    using raw_sig.sign_then_verify [OF assms(1), of "kp_secret kp" "kp_public kp" m] by (auto simp: kp)
qed

section \<open>Properties\<close>

text \<open>C26: A 32-byte secret signs every message with 64 bytes that verify under the public key
  derived from that secret; a secret of any other length neither signs nor has a public
  key, and no signature of another length verifies under any key.\<close>

theorem ed25519_sign_verify:
  assumes "key_laws K"
  shows "(ed25519_verify K i m g' \<longrightarrow> length g' = 64) \<and>
    (if length secret = 32
     then \<exists>p g. ed25519_public_from_secret K secret = Inr p \<and> ed25519_sign K secret m = Inr g \<and>
            length p = 32 \<and> length g = 64 \<and> ed25519_verify K p m g
     else is_err (ed25519_public_from_secret K secret) \<and> is_err (ed25519_sign K secret m))"
proof (cases "length secret = 32")
  case True
  then obtain p where p: "ed25519_public_from_secret K secret = Inr p"
    using ed25519_public_is_ok [OF assms, of secret] by (auto simp: is_ok_iff)
  moreover have "length p = 32" using p by (auto simp: ed25519_public_from_secret_def result_simps)
  ultimately show ?thesis
    using True raw_sig.sign_then_verify [OF assms p, of m] raw_sig.verify_length [OF assms] by auto
next
  case False
  then show ?thesis
    using ed25519_public_is_ok [OF assms, of secret] ed25519_sign_is_ok [OF assms, of secret m]
      raw_sig.verify_length [OF assms] by (auto simp: is_err_def)
qed

theorem ed25519_sign_verify_witness:
  "(\<exists>p g. ed25519_public_from_secret demo_keys (replicate 32 5) = Inr p \<and>
     ed25519_sign demo_keys (replicate 32 5) [1, 2] = Inr g \<and> ed25519_verify demo_keys p [1, 2] g) \<and>
   is_err (ed25519_sign demo_keys [5] [1, 2])"
  using ed25519_sign_verify [OF demo_keys_laws, of "[]" "[1, 2]" "[]" "replicate 32 5"]
    ed25519_sign_verify [OF demo_keys_laws, of "[]" "[1, 2]" "[]" "[5]"]
  by auto

end
