(* ===== verification/Endpoint.thy ===== *)
theory Endpoint
  imports Config Connection Crypto
begin

text \<open>
  endpoint.rs and remote_info.rs: binding an endpoint, dialing and accepting, signing,
  and the address and peer snapshots.  The library's \<^verbatim>\<open>Endpoint\<close> is a record of functions
  over the state of the world, split into the life cycle (\<open>ep_api\<close>) and the snapshots
  (\<open>info_api\<close>).
\<close>

section \<open>The library's endpoint\<close>

text \<open>
  \<open>ep_spawn_online\<close> is the effect of \<^verbatim>\<open>tokio::spawn\<close> on the warm-up task;
  \<open>addr_of_pk\<close> the library's conversion of a bare key into an address.
\<close>

record ('w, 'ep, 'conn, 'inc, 'acc, 'b, 'pk, 'sk, 'addr, 'e) ep_api =
  ep_bind :: "'b \<Rightarrow> ('w, 'e + 'ep) async"
  ep_online :: "'ep \<Rightarrow> ('w, unit) async"
  ep_spawn_online :: "'ep \<Rightarrow> 'w \<Rightarrow> 'w"
  ep_id :: "'ep \<Rightarrow> 'pk"
  ep_secret_key :: "'ep \<Rightarrow> 'sk"
  ep_addr :: "'ep \<Rightarrow> 'w \<Rightarrow> 'addr"
  ep_connect :: "'ep \<Rightarrow> 'addr \<Rightarrow> bytes \<Rightarrow> ('w, 'e + 'conn) async"
  addr_of_pk :: "'pk \<Rightarrow> 'addr"
  ep_accept :: "'ep \<Rightarrow> ('w, 'inc option) async"
  inc_accept :: "'inc \<Rightarrow> 'w \<Rightarrow> ('e + 'acc) \<times> 'w"
  acc_await :: "'acc \<Rightarrow> ('w, 'e + 'conn) async"
  ep_close :: "'ep \<Rightarrow> ('w, unit) async"
  ep_is_closed :: "'ep \<Rightarrow> 'w \<Rightarrow> bool"
  ep_set_alpns :: "'ep \<Rightarrow> bytes list \<Rightarrow> 'w \<Rightarrow> 'w"
  ep_network_change :: "'ep \<Rightarrow> ('w, unit) async"
  ep_err :: "'e \<Rightarrow> string"
  ep_err_debug :: "'e \<Rightarrow> string"

datatype TransportAddrUsage = Active | Inactive | OtherUsage

record 'url relay_status =
  rs_connected :: bool
  rs_url :: 'url

record ('w, 'ep, 'pk, 'addr, 'url, 'o, 'wt, 'ri) info_api =
  ep_watch_addr :: "'ep \<Rightarrow> 'w \<Rightarrow> 'wt"
  wt_updated :: "'wt \<Rightarrow> ('w, (unit + 'addr) \<times> 'wt) async"
  wt_get :: "'wt \<Rightarrow> 'w \<Rightarrow> 'addr"
  ep_home_relay_status :: "'ep \<Rightarrow> 'w \<Rightarrow> 'url relay_status list"
  ep_bound_sockets :: "'ep \<Rightarrow> 'w \<Rightarrow> SocketAddr list"
  ep_remote_info :: "'ep \<Rightarrow> 'pk \<Rightarrow> ('w, 'ri option) async"
  ri_id :: "'ri \<Rightarrow> 'pk"
  ri_into_addrs :: "'ri \<Rightarrow> (TransportAddrUsage \<times> ('url, 'o) TransportAddr) list"
  ta_to_string :: "('url, 'o) TransportAddr \<Rightarrow> string"

section \<open>Binding and identity\<close>

record ('conn, 'snd, 'rcv) IncomingConn =
  in_remote_id :: string
  in_alpn :: string
  in_stream :: "('conn, 'snd, 'rcv) IrohStream"

record 'ep IrohEndpoint =
  ie_inner :: 'ep

definition IrohEndpoint_bind_with ::
  "('pk, 'sk, 'sig, 'kerr) key_api \<Rightarrow> ('pk, 'url, 'o, 'addr, 'ticket, 'aerr) addr_api \<Rightarrow>
   ('b, 'url, 'sk, 'berr) builder_api \<Rightarrow> ('w, 'ep, 'conn, 'inc, 'acc, 'b, 'pk, 'sk, 'addr, 'e) ep_api \<Rightarrow>
   EndpointOptions \<Rightarrow> ('w, 'ep IrohEndpoint iroh_result) async" where
  "IrohEndpoint_bind_with K A B E options w =
     (let warm_up_online = opt_warm_up_online options in
      case builder_from_options K A B options of
        Inl e \<Rightarrow> Some (Inl e, w)
      | Inr builder \<Rightarrow>
          await_try (await_map (ep_bind E builder) (map_err (IrohError_msg (ep_err E))))
            (\<lambda>inner w. Some (Inr \<lparr>ie_inner = inner\<rparr>,
               if warm_up_online then ep_spawn_online E inner w else w)) w)"

definition IrohEndpoint_bind ::
  "('pk, 'sk, 'sig, 'kerr) key_api \<Rightarrow> ('pk, 'url, 'o, 'addr, 'ticket, 'aerr) addr_api \<Rightarrow>
   ('b, 'url, 'sk, 'berr) builder_api \<Rightarrow> ('w, 'ep, 'conn, 'inc, 'acc, 'b, 'pk, 'sk, 'addr, 'e) ep_api \<Rightarrow>
   string list \<Rightarrow> bytes option \<Rightarrow> ('w, 'ep IrohEndpoint iroh_result) async" where
  "IrohEndpoint_bind K A B E alpns secret_key =
     IrohEndpoint_bind_with K A B E
       \<lparr>opt_alpns = alpns, opt_secret_key = secret_key, opt_relay_mode = None, opt_address_lookup = True,
        opt_bind_addr = None, opt_external_addrs = None, opt_warm_up_online = True\<rparr>"

definition IrohEndpoint_id ::
  "('pk, 'sk, 'sig, 'kerr) key_api \<Rightarrow> ('w, 'ep, 'conn, 'inc, 'acc, 'b, 'pk, 'sk, 'addr, 'e) ep_api \<Rightarrow>
   'ep IrohEndpoint \<Rightarrow> string" where
  "IrohEndpoint_id K E self = pk_to_string K (ep_id E (ie_inner self))"

definition IrohEndpoint_secret_key_bytes ::
  "('pk, 'sk, 'sig, 'kerr) key_api \<Rightarrow> ('w, 'ep, 'conn, 'inc, 'acc, 'b, 'pk, 'sk, 'addr, 'e) ep_api \<Rightarrow>
   'ep IrohEndpoint \<Rightarrow> bytes" where
  "IrohEndpoint_secret_key_bytes K E self = to_vec (sk_to_bytes K (ep_secret_key E (ie_inner self)))"

definition IrohEndpoint_my_ticket ::
  "('pk, 'url, 'o, 'addr, 'ticket, 'aerr) addr_api \<Rightarrow>
   ('w, 'ep, 'conn, 'inc, 'acc, 'b, 'pk, 'sk, 'addr, 'e) ep_api \<Rightarrow>
   'ep IrohEndpoint \<Rightarrow> ('w, string iroh_result) async" where
  "IrohEndpoint_my_ticket A E self w =
     do {
       (_, w) \<leftarrow> ep_online E (ie_inner self) w;
       Some (Inr (ticket_to_string A (ticket_new A (ep_addr E (ie_inner self) w))), w)
     }"

definition IrohEndpoint_sign ::
  "('pk, 'sk, 'sig, 'kerr) key_api \<Rightarrow> ('w, 'ep, 'conn, 'inc, 'acc, 'b, 'pk, 'sk, 'addr, 'e) ep_api \<Rightarrow>
   'ep IrohEndpoint \<Rightarrow> bytes \<Rightarrow> bytes" where
  "IrohEndpoint_sign K E self data =
     to_vec (sig_to_bytes K (sk_sign K (ep_secret_key E (ie_inner self)) data))"

definition verify_signature ::
  "('pk, 'sk, 'sig, 'kerr) key_api \<Rightarrow> string \<Rightarrow> bytes \<Rightarrow> bytes \<Rightarrow> bool" where
  "verify_signature K endpoint_id_hex data signature =
     (case pk_from_str K endpoint_id_hex of
        Inl _ \<Rightarrow> False
      | Inr key \<Rightarrow>
          (case sig_try_from K signature of
             Inl _ \<Rightarrow> False
           | Inr sig \<Rightarrow> is_ok (pk_verify K key data sig)))"

section \<open>Dialing\<close>

definition IrohEndpoint_connect_conn ::
  "('pk, 'url, 'o, 'addr, 'ticket, 'aerr) addr_api \<Rightarrow>
   ('w, 'ep, 'conn, 'inc, 'acc, 'b, 'pk, 'sk, 'addr, 'e) ep_api \<Rightarrow>
   'ep IrohEndpoint \<Rightarrow> string \<Rightarrow> string \<Rightarrow> ('w, 'conn IrohConnection iroh_result) async" where
  "IrohEndpoint_connect_conn A E self ticket alpn w =
     (case map_err (IrohError_msg (addr_err A)) (ticket_from_str A ticket) of
        Inl e \<Rightarrow> Some (Inl e, w)
      | Inr ticket \<Rightarrow>
          let addr = ticket_endpoint_addr A ticket in
          await_try (await_map (ep_connect E (ie_inner self) addr (as_bytes alpn)) (map_err (IrohError_msg (ep_err E))))
            (\<lambda>conn. ready (Inr (IrohConnection_new conn))) w)"

definition IrohEndpoint_connect_addr ::
  "('pk, 'sk, 'sig, 'kerr) key_api \<Rightarrow> ('pk, 'url, 'o, 'addr, 'ticket, 'aerr) addr_api \<Rightarrow>
   ('w, 'ep, 'conn, 'inc, 'acc, 'b, 'pk, 'sk, 'addr, 'e) ep_api \<Rightarrow>
   'ep IrohEndpoint \<Rightarrow> EndpointAddr \<Rightarrow> string \<Rightarrow> ('w, 'conn IrohConnection iroh_result) async" where
  "IrohEndpoint_connect_addr K A E self addr alpn w =
     (case EndpointAddr_try_into K A addr of
        Inl e \<Rightarrow> Some (Inl e, w)
      | Inr addr \<Rightarrow>
          await_try (await_map (ep_connect E (ie_inner self) addr (as_bytes alpn)) (map_err (IrohError_msg (ep_err E))))
            (\<lambda>conn. ready (Inr (IrohConnection_new conn))) w)"

definition IrohEndpoint_connect_by_id ::
  "('pk, 'sk, 'sig, 'kerr) key_api \<Rightarrow>
   ('w, 'ep, 'conn, 'inc, 'acc, 'b, 'pk, 'sk, 'addr, 'e) ep_api \<Rightarrow>
   'ep IrohEndpoint \<Rightarrow> string \<Rightarrow> string \<Rightarrow> ('w, 'conn IrohConnection iroh_result) async" where
  "IrohEndpoint_connect_by_id K E self endpoint_id_hex alpn w =
     (case map_err (IrohError_msg (key_err K)) (pk_from_str K endpoint_id_hex) of
        Inl e \<Rightarrow> Some (Inl e, w)
      | Inr key \<Rightarrow>
          await_try (await_map (ep_connect E (ie_inner self) (addr_of_pk E key) (as_bytes alpn))
              (map_err (IrohError_msg (ep_err E))))
            (\<lambda>conn. ready (Inr (IrohConnection_new conn))) w)"

definition IrohEndpoint_connect ::
  "('pk, 'url, 'o, 'addr, 'ticket, 'aerr) addr_api \<Rightarrow>
   ('w, 'conn, 'snd, 'rcv, 'vi, 'se, 'x, 'pk, 'z) conn_api_scheme \<Rightarrow>
   ('w, 'ep, 'conn, 'inc, 'acc, 'b, 'pk, 'sk, 'addr, 'e) ep_api \<Rightarrow>
   'ep IrohEndpoint \<Rightarrow> string \<Rightarrow> string \<Rightarrow> ('w, ('conn, 'snd, 'rcv) IrohStream iroh_result) async" where
  "IrohEndpoint_connect A C E self ticket alpn =
     await_try (IrohEndpoint_connect_conn A E self ticket alpn) (IrohConnection_open_bi C)"

section \<open>Accepting\<close>

definition IrohEndpoint_accept_conn ::
  "('w, 'ep, 'conn, 'inc, 'acc, 'b, 'pk, 'sk, 'addr, 'e) ep_api \<Rightarrow>
   'ep IrohEndpoint \<Rightarrow> ('w, 'conn IrohConnection option iroh_result) async" where
  "IrohEndpoint_accept_conn E self w =
     do {
       (incoming, w) \<leftarrow> ep_accept E (ie_inner self) w;
       (case incoming of
          None \<Rightarrow> Some (Inr None, w)
        | Some incoming \<Rightarrow>
            (case inc_accept E incoming w of
               (Inl e, w) \<Rightarrow> Some (Inl (IrohError_msg (ep_err E) e), w)
             | (Inr accepting, w) \<Rightarrow>
                 await_try (await_map (acc_await E accepting) (map_err (\<lambda>e. Generic (ep_err_debug E e))))
                   (\<lambda>conn. ready (Inr (Some (IrohConnection_new conn)))) w))
     }"

definition IrohEndpoint_accept_next ::
  "('pk, 'sk, 'sig, 'kerr) key_api \<Rightarrow>
   ('w, 'conn, 'snd, 'rcv, 'vi, 'se, 'x, 'pk, 'z) conn_api_scheme \<Rightarrow>
   ('w, 'ep, 'conn, 'inc, 'acc, 'b, 'pk, 'sk, 'addr, 'e) ep_api \<Rightarrow>
   'ep IrohEndpoint \<Rightarrow> ('w, ('conn, 'snd, 'rcv) IncomingConn option iroh_result) async" where
  "IrohEndpoint_accept_next K C E self =
     await_try (IrohEndpoint_accept_conn E self) (\<lambda>conn.
       case conn of
         None \<Rightarrow> ready (Inr None)
       | Some conn \<Rightarrow>
           let remote_id = IrohConnection_remote_id K C conn;
               alpn = IrohConnection_alpn C conn in
           await_try (IrohConnection_accept_bi C conn) (\<lambda>stream.
             ready (Inr (Some \<lparr>in_remote_id = remote_id, in_alpn = alpn, in_stream = stream\<rparr>))))"

definition IrohEndpoint_shutdown ::
  "('w, 'ep, 'conn, 'inc, 'acc, 'b, 'pk, 'sk, 'addr, 'e) ep_api \<Rightarrow> 'ep IrohEndpoint \<Rightarrow> ('w, unit) async" where
  "IrohEndpoint_shutdown E self = ep_close E (ie_inner self)"

section \<open>Snapshots and settings\<close>

definition IrohEndpoint_addr ::
  "('pk, 'sk, 'sig, 'kerr) key_api \<Rightarrow> ('pk, 'url, 'o, 'addr, 'ticket, 'aerr) addr_api \<Rightarrow>
   ('w, 'ep, 'conn, 'inc, 'acc, 'b, 'pk, 'sk, 'addr, 'e) ep_api \<Rightarrow>
   'ep IrohEndpoint \<Rightarrow> 'w \<Rightarrow> EndpointAddr" where
  "IrohEndpoint_addr K A E self w = EndpointAddr_from K A (ep_addr E (ie_inner self) w)"

definition IrohEndpoint_addr_updated ::
  "('pk, 'sk, 'sig, 'kerr) key_api \<Rightarrow> ('pk, 'url, 'o, 'addr, 'ticket, 'aerr) addr_api \<Rightarrow>
   ('w, 'ep, 'pk, 'addr, 'url, 'o, 'wt, 'ri) info_api \<Rightarrow>
   'ep IrohEndpoint \<Rightarrow> ('w, EndpointAddr) async" where
  "IrohEndpoint_addr_updated K A I self w =
     (let watcher = ep_watch_addr I (ie_inner self) w in
      do {
        ((r, watcher), w) \<leftarrow> wt_updated I watcher w;
        (case r of
           Inr addr \<Rightarrow> Some (EndpointAddr_from K A addr, w)
         | Inl _ \<Rightarrow> Some (EndpointAddr_from K A (wt_get I watcher w), w))
      })"

definition IrohEndpoint_direct_addresses ::
  "('pk, 'url, 'o, 'addr, 'ticket, 'aerr) addr_api \<Rightarrow>
   ('w, 'ep, 'conn, 'inc, 'acc, 'b, 'pk, 'sk, 'addr, 'e) ep_api \<Rightarrow>
   'ep IrohEndpoint \<Rightarrow> 'w \<Rightarrow> string list" where
  "IrohEndpoint_direct_addresses A E self w =
     map SocketAddr_to_string (addr_ip_addrs A (ep_addr E (ie_inner self) w))"

definition IrohEndpoint_home_relay ::
  "('pk, 'url, 'o, 'addr, 'ticket, 'aerr) addr_api \<Rightarrow>
   ('w, 'ep, 'pk, 'addr, 'url, 'o, 'wt, 'ri) info_api \<Rightarrow>
   'ep IrohEndpoint \<Rightarrow> 'w \<Rightarrow> string option" where
  "IrohEndpoint_home_relay A I self w =
     map_option (\<lambda>status. url_to_string A (rs_url status))
       (List.find rs_connected (ep_home_relay_status I (ie_inner self) w))"

definition IrohEndpoint_wait_online ::
  "('w, 'ep, 'conn, 'inc, 'acc, 'b, 'pk, 'sk, 'addr, 'e) ep_api \<Rightarrow> 'ep IrohEndpoint \<Rightarrow> ('w, unit) async" where
  "IrohEndpoint_wait_online E self = ep_online E (ie_inner self)"

definition IrohEndpoint_is_closed ::
  "('w, 'ep, 'conn, 'inc, 'acc, 'b, 'pk, 'sk, 'addr, 'e) ep_api \<Rightarrow> 'ep IrohEndpoint \<Rightarrow> 'w \<Rightarrow> bool" where
  "IrohEndpoint_is_closed E self w = ep_is_closed E (ie_inner self) w"

definition IrohEndpoint_bound_sockets ::
  "('w, 'ep, 'pk, 'addr, 'url, 'o, 'wt, 'ri) info_api \<Rightarrow> 'ep IrohEndpoint \<Rightarrow> 'w \<Rightarrow> string list" where
  "IrohEndpoint_bound_sockets I self w = map SocketAddr_to_string (ep_bound_sockets I (ie_inner self) w)"

definition IrohEndpoint_set_alpns ::
  "('w, 'ep, 'conn, 'inc, 'acc, 'b, 'pk, 'sk, 'addr, 'e) ep_api \<Rightarrow> 'ep IrohEndpoint \<Rightarrow>
   string list \<Rightarrow> 'w \<Rightarrow> 'w" where
  "IrohEndpoint_set_alpns E self alpns w = ep_set_alpns E (ie_inner self) (map into_bytes alpns) w"

definition IrohEndpoint_network_change ::
  "('w, 'ep, 'conn, 'inc, 'acc, 'b, 'pk, 'sk, 'addr, 'e) ep_api \<Rightarrow> 'ep IrohEndpoint \<Rightarrow> ('w, unit) async" where
  "IrohEndpoint_network_change E self = ep_network_change E (ie_inner self)"

record RemoteAddrInfo =
  rai_addr :: string
  rai_kind :: PathKind
  rai_usage :: string

record RemoteInfo =
  rem_id :: string
  rem_addrs :: "RemoteAddrInfo list"

definition remote_addr_info ::
  "('pk, 'url, 'o, 'addr, 'ticket, 'aerr) addr_api \<Rightarrow>
   ('w, 'ep, 'pk, 'addr, 'url, 'o, 'wt, 'ri) info_api \<Rightarrow>
   TransportAddrUsage \<times> ('url, 'o) TransportAddr \<Rightarrow> RemoteAddrInfo" where
  "remote_addr_info A I a =
     (let usage = (case fst a of Active \<Rightarrow> ''active'' | Inactive \<Rightarrow> ''inactive'' | _ \<Rightarrow> ''unknown'');
          (addr, kind) =
            (case snd a of
               Ip sock \<Rightarrow> (SocketAddr_to_string sock, PathKind_Ip)
             | Relay url \<Rightarrow> (url_to_string A url, PathKind_Relay)
             | other \<Rightarrow> (ta_to_string I other, PathKind_Ip))
      in \<lparr>rai_addr = addr, rai_kind = kind, rai_usage = usage\<rparr>)"

definition IrohEndpoint_remote_info ::
  "('pk, 'sk, 'sig, 'kerr) key_api \<Rightarrow> ('pk, 'url, 'o, 'addr, 'ticket, 'aerr) addr_api \<Rightarrow>
   ('w, 'ep, 'pk, 'addr, 'url, 'o, 'wt, 'ri) info_api \<Rightarrow>
   'ep IrohEndpoint \<Rightarrow> string \<Rightarrow> ('w, RemoteInfo option iroh_result) async" where
  "IrohEndpoint_remote_info K A I self endpoint_id_hex w =
     (case map_err (IrohError_msg (key_err K)) (pk_from_str K endpoint_id_hex) of
        Inl e \<Rightarrow> Some (Inl e, w)
      | Inr key \<Rightarrow>
          do {
            (info, w) \<leftarrow> ep_remote_info I (ie_inner self) key w;
            (case info of
               None \<Rightarrow> Some (Inr None, w)
             | Some info \<Rightarrow>
                 Some (Inr (Some \<lparr>rem_id = pk_to_string K (ri_id I info),
                                  rem_addrs = map (remote_addr_info A I) (ri_into_addrs I info)\<rparr>), w))
          })"

section \<open>The laws of a bound endpoint\<close>

text \<open>An endpoint is identified by the public key of its secret key, and binds the key it is given.\<close>

definition identity_law ::
  "('pk, 'sk, 'sig, 'kerr) key_api \<Rightarrow> ('w, 'ep, 'conn, 'inc, 'acc, 'b, 'pk, 'sk, 'addr, 'e) ep_api \<Rightarrow> bool" where
  "identity_law K E \<longleftrightarrow> (\<forall>ep. ep_id E ep = sk_public K (ep_secret_key E ep))"

definition bind_law ::
  "('b \<Rightarrow> ('url, 'sk, 'svc, 'bind) builder_view) \<Rightarrow>
   ('w, 'ep, 'conn, 'inc, 'acc, 'b, 'pk, 'sk, 'addr, 'e) ep_api \<Rightarrow> bool" where
  "bind_law view E \<longleftrightarrow>
     (\<forall>b w ep w' k. ep_bind E b w = Some (Inr ep, w') \<and> bv_secret (view b) = Some k \<longrightarrow> ep_secret_key E ep = k)"

text \<open>The address an endpoint publishes is its own; a bare key is the address without transports.\<close>

definition own_addr_law ::
  "('pk, 'url, 'o, 'addr, 'ticket, 'aerr) addr_api \<Rightarrow>
   ('w, 'ep, 'conn, 'inc, 'acc, 'b, 'pk, 'sk, 'addr, 'e) ep_api \<Rightarrow> bool" where
  "own_addr_law A E \<longleftrightarrow>
     (\<forall>ep w. addr_id A (ep_addr E ep w) = ep_id E ep) \<and> (\<forall>k. addr_of_pk E k = addr_from_parts A k [])"

text \<open>A connection that was dialed has negotiated the protocol it was dialed with.\<close>

definition alpn_law ::
  "('w, 'conn, 'snd, 'rcv, 'vi, 'se, 'x, 'pk, 'z) conn_api_scheme \<Rightarrow>
   ('w, 'ep, 'conn, 'inc, 'acc, 'b, 'pk, 'sk, 'addr, 'e) ep_api \<Rightarrow> bool" where
  "alpn_law C E \<longleftrightarrow> (\<forall>ep a p w c w'. ep_connect E ep a p w = Some (Inr c, w') \<longrightarrow> cn_alpn C c = p)"

text \<open>
  The accept queue (\<open>queue\<close>): the connections whose handshake completes, in order of
  arrival.  Accepting takes the first one out; each peer opens a stream, and accepting
  that does not touch the queue.
\<close>

definition accept_law ::
  "('w, 'conn, 'snd, 'rcv, 'vi, 'se, 'x, 'pk, 'z) conn_api_scheme \<Rightarrow>
   ('w, 'ep, 'conn, 'inc, 'acc, 'b, 'pk, 'sk, 'addr, 'e) ep_api \<Rightarrow> ('ep \<Rightarrow> 'w \<Rightarrow> 'conn list) \<Rightarrow> bool" where
  "accept_law C E queue \<longleftrightarrow>
     (\<forall>ep w c cs. queue ep w = c # cs \<longrightarrow>
        (\<exists>inc w1 acc w2 w3. ep_accept E ep w = Some (Some inc, w1) \<and> inc_accept E inc w1 = (Inr acc, w2) \<and>
           acc_await E acc w2 = Some (Inr c, w3) \<and> queue ep w3 = cs \<and>
           (\<exists>sr w4. cn_accept_bi C c w3 = Some (Inr sr, w4) \<and> queue ep w4 = cs)))"

lemma accept_conn_head:
  assumes "accept_law C E queue" "queue (ie_inner self) w = c # cs"
  shows "\<exists>w3. IrohEndpoint_accept_conn E self w = Some (Inr (Some (IrohConnection_new c)), w3) \<and>
     queue (ie_inner self) w3 = cs \<and>
     (\<exists>sr w4. cn_accept_bi C c w3 = Some (Inr sr, w4) \<and> queue (ie_inner self) w4 = cs)"
proof -
  obtain inc w1 acc w2 w3 where step: "ep_accept E (ie_inner self) w = Some (Some inc, w1)"
    "inc_accept E inc w1 = (Inr acc, w2)" "acc_await E acc w2 = Some (Inr c, w3)" "queue (ie_inner self) w3 = cs"
    "\<exists>sr w4. cn_accept_bi C c w3 = Some (Inr sr, w4) \<and> queue (ie_inner self) w4 = cs"
    using assms unfolding accept_law_def by metis
  then have "IrohEndpoint_accept_conn E self w = Some (Inr (Some (IrohConnection_new c)), w3)"
    by (simp add: IrohEndpoint_accept_conn_def)
  with step show ?thesis by blast
qed

lemma accept_next_head:
  assumes "accept_law C E queue" "queue (ie_inner self) w = c # cs"
  shows "\<exists>i w4. IrohEndpoint_accept_next K C E self w = Some (Inr (Some i), w4) \<and>
     is_conn (in_stream i) = c \<and> in_remote_id i = pk_to_string K (cn_remote_id C c) \<and>
     queue (ie_inner self) w4 = cs"
proof -
  obtain w3 sr w4 where step:
    "IrohEndpoint_accept_conn E self w = Some (Inr (Some (IrohConnection_new c)), w3)"
    "cn_accept_bi C c w3 = Some (Inr sr, w4)" "queue (ie_inner self) w4 = cs"
    using accept_conn_head [OF assms] by blast
  then have "IrohConnection_accept_bi C (IrohConnection_new c) w3 =
      Some (Inr (IrohStream_new c (fst sr) (snd sr)), w4)"
    by (simp add: IrohConnection_accept_bi_def IrohConnection_new_def split_beta)
  with step show ?thesis
    by (auto simp: IrohEndpoint_accept_next_def Let_def IrohConnection_remote_id_def IrohConnection_new_def
        IrohStream_new_def)
qed

section \<open>Signing with a bound endpoint\<close>

text \<open>The signing contract of \<open>Crypto\<close>, provided by a bound endpoint and \<^verbatim>\<open>verify_signature\<close>.\<close>

lemma verify_signature_length: "key_laws K \<Longrightarrow> verify_signature K i m g \<Longrightarrow> length g = 64"
  using key_lawsD(9) [of K g] by (auto simp: verify_signature_def is_err_iff split: sum.splits)

interpretation ep_sig: signature_scheme
  "\<lambda>(K, E). key_laws K \<and> identity_law K E"
  "\<lambda>(K, E) self m. Inr (IrohEndpoint_sign K E self m)"
  "\<lambda>(K, E) self. Inr (IrohEndpoint_id K E self)"
  "\<lambda>(K, E). verify_signature K"
proof (unfold_locales, goal_cases)
  case (2 p s m g i)
  obtain K E where p: "p = (K, E)" by (cases p)
  with 2 show ?case
    by (auto simp: verify_signature_def IrohEndpoint_sign_def IrohEndpoint_id_def key_lawsD identity_law_def)
qed (auto simp: IrohEndpoint_sign_def dest: verify_signature_length)

section \<open>A concrete endpoint\<close>

definition demo_ep_api ::
  "(demo_net, 32 byte_array, nat, nat, nat, demo_builder, 32 byte_array, 32 byte_array, demo_addr, unit) ep_api" where
  "demo_ep_api =
     \<lparr>ep_bind = (\<lambda>b w. Some (Inr (case bv_secret b of Some k \<Rightarrow> k | None \<Rightarrow> demo_key), w)),
      ep_online = (\<lambda>_ w. Some ((), w)), ep_spawn_online = (\<lambda>_ w. w), ep_id = id, ep_secret_key = id,
      ep_addr = (\<lambda>ep w. (ep, {|Ip demo_sock|})),
      ep_connect = (\<lambda>ep a p w. Some (Inr (to_nat p), w)), addr_of_pk = (\<lambda>k. (k, {||})),
      ep_accept = (\<lambda>ep w. case dn_queue w of [] \<Rightarrow> Some (None, w) | c # cs \<Rightarrow> Some (Some c, w\<lparr>dn_queue := cs\<rparr>)),
      inc_accept = (\<lambda>i w. (Inr i, w)), acc_await = (\<lambda>a w. Some (Inr a, w)),
      ep_close = (\<lambda>_ w. Some ((), w)), ep_is_closed = (\<lambda>_ _. False), ep_set_alpns = (\<lambda>_ _ w. w),
      ep_network_change = (\<lambda>_ w. Some ((), w)), ep_err = (\<lambda>_. ''endpoint error''), ep_err_debug = (\<lambda>_. ''Error'')\<rparr>"

definition demo_queue :: "32 byte_array \<Rightarrow> demo_net \<Rightarrow> nat list" where
  "demo_queue ep w = (if 0 \<in> set (dn_queue w) then [] else dn_queue w)"

lemma demo_ep_laws:
  "identity_law demo_keys demo_ep_api" "bind_law (\<lambda>b. b) demo_ep_api" "own_addr_law demo_addr_api demo_ep_api"
  "alpn_law demo_conn_api demo_ep_api" "accept_law demo_conn_api demo_ep_api demo_queue"
  by (auto simp: identity_law_def bind_law_def own_addr_law_def alpn_law_def accept_law_def demo_ep_api_def
      demo_keys_def demo_addr_api_def demo_queue_def split: option.splits if_splits)

definition demo_ep :: "32 byte_array IrohEndpoint" where
  "demo_ep = \<lparr>ie_inner = demo_key\<rparr>"

end
