(* ===== verification/Accept_Tasks.thy ===== *)
theory Accept_Tasks
  imports Endpoint
begin

text \<open>
  Accepting connections (endpoint.rs).  First one call after the other, then any number
  of concurrent \<^verbatim>\<open>accept_conn\<close> and \<^verbatim>\<open>accept_next\<close> calls on one endpoint: \<open>accept_poll\<close> is the
  state machine of the two async functions, with a state per \<^verbatim>\<open>await\<close>; \<open>accept_step\<close> lets the
  calls, cancellations and the network interleave.  Last the loop the documentation of
  \<^verbatim>\<open>accept_next\<close> describes.
\<close>

section \<open>One call after the other\<close>

text \<open>The two accept calls share one queue; a client that mixes them, with the connections it gets.\<close>

datatype accept_call = AcceptConn | AcceptNext

definition accept_one ::
  "('pk, 'sk, 'sig, 'kerr) key_api \<Rightarrow> ('w, 'conn, 'snd, 'rcv, 'vi, 'se, 'x, 'pk, 'z) conn_api_scheme \<Rightarrow>
   ('w, 'ep, 'conn, 'inc, 'acc, 'b, 'pk, 'sk, 'addr, 'e) ep_api \<Rightarrow> 'ep IrohEndpoint \<Rightarrow> accept_call \<Rightarrow>
   ('w, 'conn option iroh_result) async" where
  "accept_one K C E self a =
     (case a of
        AcceptConn \<Rightarrow> await_map (IrohEndpoint_accept_conn E self) (map_ok (map_option ic_inner))
      | AcceptNext \<Rightarrow> await_map (IrohEndpoint_accept_next K C E self) (map_ok (map_option (\<lambda>i. is_conn (in_stream i)))))"

fun serve ::
  "('pk, 'sk, 'sig, 'kerr) key_api \<Rightarrow> ('w, 'conn, 'snd, 'rcv, 'vi, 'se, 'x, 'pk, 'z) conn_api_scheme \<Rightarrow>
   ('w, 'ep, 'conn, 'inc, 'acc, 'b, 'pk, 'sk, 'addr, 'e) ep_api \<Rightarrow> 'ep IrohEndpoint \<Rightarrow> accept_call list \<Rightarrow>
   ('w, 'conn option list iroh_result) async" where
  "serve K C E self [] = ready (Inr [])"
| "serve K C E self (a # as) =
     await_try (accept_one K C E self a) (\<lambda>c. await_map (serve K C E self as) (map_ok (\<lambda>cs. c # cs)))"

lemma accept_one_head:
  assumes "accept_law C E queue" "queue (ie_inner self) w = c # cs"
  shows "\<exists>w'. accept_one K C E self a w = Some (Inr (Some c), w') \<and> queue (ie_inner self) w' = cs"
proof (cases a)
  case AcceptConn
  then show ?thesis
    using accept_conn_head [OF assms] by (auto simp: accept_one_def IrohConnection_new_def)
next
  case AcceptNext
  then show ?thesis
    using accept_next_head [OF assms, of K] by (auto simp: accept_one_def)
qed

section \<open>The state machine of an accept call\<close>

text \<open>What a call returns: \<^verbatim>\<open>accept_conn\<close> and \<^verbatim>\<open>accept_next\<close> have different types.\<close>

datatype ('conn, 'snd, 'rcv) accept_result =
    ConnResult "'conn IrohConnection option iroh_result"
  | NextResult "('conn, 'snd, 'rcv) IncomingConn option iroh_result"

definition accept_error :: "accept_call \<Rightarrow> IrohError \<Rightarrow> ('conn, 'snd, 'rcv) accept_result" where
  "accept_error k e = (case k of AcceptConn \<Rightarrow> ConnResult (Inl e) | AcceptNext \<Rightarrow> NextResult (Inl e))"

definition accept_closed :: "accept_call \<Rightarrow> ('conn, 'snd, 'rcv) accept_result" where
  "accept_closed k = (case k of AcceptConn \<Rightarrow> ConnResult (Inr None) | AcceptNext \<Rightarrow> NextResult (Inr None))"

text \<open>
  The states: at the \<^verbatim>\<open>await\<close> for an incoming connection, between it and the call to
  \<^verbatim>\<open>incoming.accept()\<close>, at the \<^verbatim>\<open>await\<close> of the handshake, and, for \<^verbatim>\<open>accept_next\<close>, at the \<^verbatim>\<open>await\<close>
  for the peer's stream.  A state remembers the incoming connection the call took.
\<close>

datatype ('inc, 'acc, 'conn, 'snd, 'rcv) accept_task =
    NotCalled
  | AwaitIncoming accept_call
  | GotIncoming accept_call 'inc
  | AwaitHandshake accept_call 'inc 'acc
  | AwaitStream 'inc "'conn IrohConnection"
  | Returned "'inc option" "('conn, 'snd, 'rcv) accept_result"
  | Dropped "'inc option"

fun accept_poll ::
  "('pk, 'sk, 'sig, 'kerr) key_api \<Rightarrow> ('w, 'conn, 'snd, 'rcv, 'vi, 'se, 'x, 'pk, 'z) conn_api_scheme \<Rightarrow>
   ('w, 'ep, 'conn, 'inc, 'acc, 'b, 'pk, 'sk, 'addr, 'e) ep_api \<Rightarrow> 'ep IrohEndpoint \<Rightarrow>
   ('inc, 'acc, 'conn, 'snd, 'rcv) accept_task \<Rightarrow> 'w \<Rightarrow> (('inc, 'acc, 'conn, 'snd, 'rcv) accept_task \<times> 'w) option" where
  "accept_poll K C E self (AwaitIncoming k) w =
     (case ep_accept E (ie_inner self) w of
        None \<Rightarrow> None
      | Some (None, w) \<Rightarrow> Some (Returned None (accept_closed k), w)
      | Some (Some incoming, w) \<Rightarrow> Some (GotIncoming k incoming, w))"
| "accept_poll K C E self (GotIncoming k incoming) w =
     (case inc_accept E incoming w of
        (Inl e, w) \<Rightarrow> Some (Returned (Some incoming) (accept_error k (IrohError_msg (ep_err E) e)), w)
      | (Inr accepting, w) \<Rightarrow> Some (AwaitHandshake k incoming accepting, w))"
| "accept_poll K C E self (AwaitHandshake k incoming accepting) w =
     (case acc_await E accepting w of
        None \<Rightarrow> None
      | Some (Inl e, w) \<Rightarrow> Some (Returned (Some incoming) (accept_error k (Generic (ep_err_debug E e))), w)
      | Some (Inr conn, w) \<Rightarrow>
          Some (case k of
                  AcceptConn \<Rightarrow> Returned (Some incoming) (ConnResult (Inr (Some (IrohConnection_new conn))))
                | AcceptNext \<Rightarrow> AwaitStream incoming (IrohConnection_new conn), w))"
| "accept_poll K C E self (AwaitStream incoming conn) w =
     (case IrohConnection_accept_bi C conn w of
        None \<Rightarrow> None
      | Some (Inl e, w) \<Rightarrow> Some (Returned (Some incoming) (NextResult (Inl e)), w)
      | Some (Inr stream, w) \<Rightarrow>
          Some (Returned (Some incoming) (NextResult (Inr (Some
            \<lparr>in_remote_id = IrohConnection_remote_id K C conn, in_alpn = IrohConnection_alpn C conn,
             in_stream = stream\<rparr>))), w))"
| "accept_poll K C E self _ w = None"

text \<open>Dropping the future at an \<^verbatim>\<open>await\<close>.\<close>

fun accept_drop :: "('inc, 'acc, 'conn, 'snd, 'rcv) accept_task \<Rightarrow> ('inc, 'acc, 'conn, 'snd, 'rcv) accept_task option" where
  "accept_drop (AwaitIncoming k) = Some (Dropped None)"
| "accept_drop (AwaitHandshake k incoming accepting) = Some (Dropped (Some incoming))"
| "accept_drop (AwaitStream incoming conn) = Some (Dropped (Some incoming))"
| "accept_drop _ = None"

text \<open>The incoming connection a call has taken.\<close>

fun took :: "('inc, 'acc, 'conn, 'snd, 'rcv) accept_task \<Rightarrow> 'inc option" where
  "took (GotIncoming k i) = Some i"
| "took (AwaitHandshake k i a) = Some i"
| "took (AwaitStream i c) = Some i"
| "took (Returned i r) = i"
| "took (Dropped i) = i"
| "took _ = None"

text \<open>A call that runs alone, polled at most \<open>n\<close> times; four polls reach its end.\<close>

fun poll_alone ::
  "('pk, 'sk, 'sig, 'kerr) key_api \<Rightarrow> ('w, 'conn, 'snd, 'rcv, 'vi, 'se, 'x, 'pk, 'z) conn_api_scheme \<Rightarrow>
   ('w, 'ep, 'conn, 'inc, 'acc, 'b, 'pk, 'sk, 'addr, 'e) ep_api \<Rightarrow> 'ep IrohEndpoint \<Rightarrow>
   nat \<Rightarrow> ('inc, 'acc, 'conn, 'snd, 'rcv) accept_task \<Rightarrow> 'w \<Rightarrow> (('conn, 'snd, 'rcv) accept_result \<times> 'w) option" where
  "poll_alone K C E self n (Returned i r) w = Some (r, w)"
| "poll_alone K C E self 0 p w = None"
| "poll_alone K C E self (Suc n) p w =
     (case accept_poll K C E self p w of None \<Rightarrow> None | Some (p, w) \<Rightarrow> poll_alone K C E self n p w)"

lemma await_try_nested:
  assumes "act w = await_try a (\<lambda>x. ready (Inr (f x))) w'"
  shows "await_try act k w = await_try a (\<lambda>x. k (f x)) w'"
proof (cases "a w'")
  case None
  with assms show ?thesis by simp
next
  case (Some p)
  with assms show ?thesis by (cases p; cases "fst p") simp_all
qed

text \<open>The last two polls, from the handshake on.\<close>

lemma poll_handshake:
  "poll_alone K C E self (Suc (Suc 0)) (AwaitHandshake AcceptConn i a) w =
     map_option (\<lambda>(r, w'). (ConnResult r, w'))
       (await_try (await_map (acc_await E a) (map_err (\<lambda>e. Generic (ep_err_debug E e))))
          (\<lambda>conn. ready (Inr (Some (IrohConnection_new conn)))) w)"
  "poll_alone K C E self (Suc (Suc 0)) (AwaitHandshake AcceptNext i a) w =
     map_option (\<lambda>(r, w'). (NextResult r, w'))
       (await_try (await_map (acc_await E a) (map_err (\<lambda>e. Generic (ep_err_debug E e))))
          (\<lambda>conn. await_try (IrohConnection_accept_bi C (IrohConnection_new conn)) (\<lambda>stream.
             ready (Inr (Some \<lparr>in_remote_id = IrohConnection_remote_id K C (IrohConnection_new conn),
               in_alpn = IrohConnection_alpn C (IrohConnection_new conn), in_stream = stream\<rparr>)))) w)"
  by (auto simp: await_try_def await_map_def accept_error_def split: option.splits sum.splits)

section \<open>Concurrent calls\<close>

record ('inc, 'acc, 'conn, 'snd, 'rcv, 'w) accept_sys =
  acs_tasks :: "nat \<Rightarrow> ('inc, 'acc, 'conn, 'snd, 'rcv) accept_task"
  acs_world :: 'w

inductive accept_step ::
  "('pk, 'sk, 'sig, 'kerr) key_api \<Rightarrow> ('w, 'conn, 'snd, 'rcv, 'vi, 'se, 'x, 'pk, 'z) conn_api_scheme \<Rightarrow>
   ('w, 'ep, 'conn, 'inc, 'acc, 'b, 'pk, 'sk, 'addr, 'e) ep_api \<Rightarrow> 'ep IrohEndpoint \<Rightarrow> ('w \<Rightarrow> 'w \<Rightarrow> bool) \<Rightarrow>
   ('inc, 'acc, 'conn, 'snd, 'rcv, 'w) accept_sys \<Rightarrow> ('inc, 'acc, 'conn, 'snd, 'rcv, 'w) accept_sys \<Rightarrow> bool"
  for K C E self env where
  acall: "acs_tasks s t = NotCalled \<Longrightarrow>
    accept_step K C E self env s (s\<lparr>acs_tasks := (acs_tasks s)(t := AwaitIncoming k)\<rparr>)"
| apoll: "accept_poll K C E self (acs_tasks s t) (acs_world s) = Some (p, w) \<Longrightarrow>
    accept_step K C E self env s (s\<lparr>acs_tasks := (acs_tasks s)(t := p), acs_world := w\<rparr>)"
| adrop: "accept_drop (acs_tasks s t) = Some p \<Longrightarrow>
    accept_step K C E self env s (s\<lparr>acs_tasks := (acs_tasks s)(t := p)\<rparr>)"
| anetwork: "env (acs_world s) w \<Longrightarrow> accept_step K C E self env s (s\<lparr>acs_world := w\<rparr>)"

inductive accept_reach ::
  "('pk, 'sk, 'sig, 'kerr) key_api \<Rightarrow> ('w, 'conn, 'snd, 'rcv, 'vi, 'se, 'x, 'pk, 'z) conn_api_scheme \<Rightarrow>
   ('w, 'ep, 'conn, 'inc, 'acc, 'b, 'pk, 'sk, 'addr, 'e) ep_api \<Rightarrow> 'ep IrohEndpoint \<Rightarrow> ('w \<Rightarrow> 'w \<Rightarrow> bool) \<Rightarrow>
   'w \<Rightarrow> ('inc, 'acc, 'conn, 'snd, 'rcv, 'w) accept_sys \<Rightarrow> bool"
  for K C E self env w0 where
  accept_start: "accept_reach K C E self env w0 \<lparr>acs_tasks = (\<lambda>_. NotCalled), acs_world = w0\<rparr>"
| accept_more: "accept_reach K C E self env w0 s \<Longrightarrow> accept_step K C E self env s s' \<Longrightarrow> accept_reach K C E self env w0 s'"

text \<open>
  The library's accept queue: \<open>arrived\<close> are the connections the endpoint has seen,
  \<open>waiting\<close> those not yet taken.  \<^verbatim>\<open>Endpoint::accept\<close> takes the first one waiting; nothing else
  takes from the queue; the network appends.  \<open>acc_of\<close> and \<open>conn_of\<close> read off which incoming
  connection a handshake and a connection come from.
\<close>

definition incoming_law ::
  "('w, 'conn, 'snd, 'rcv, 'vi, 'se, 'x, 'pk, 'z) conn_api_scheme \<Rightarrow>
   ('w, 'ep, 'conn, 'inc, 'acc, 'b, 'pk, 'sk, 'addr, 'e) ep_api \<Rightarrow> ('w \<Rightarrow> 'w \<Rightarrow> bool) \<Rightarrow> 'ep \<Rightarrow>
   ('w \<Rightarrow> 'inc list) \<Rightarrow> ('w \<Rightarrow> 'inc list) \<Rightarrow> ('acc \<Rightarrow> 'inc) \<Rightarrow> ('conn \<Rightarrow> 'inc) \<Rightarrow> bool" where
  "incoming_law C E env ep arrived waiting acc_of conn_of \<longleftrightarrow>
     (\<forall>w i w'. ep_accept E ep w = Some (Some i, w') \<longrightarrow> waiting w = i # waiting w' \<and> arrived w' = arrived w) \<and>
     (\<forall>w w'. ep_accept E ep w = Some (None, w') \<longrightarrow> waiting w' = waiting w \<and> arrived w' = arrived w) \<and>
     (\<forall>i w r w'. inc_accept E i w = (r, w') \<longrightarrow> waiting w' = waiting w \<and> arrived w' = arrived w \<and>
        (\<forall>a. r = Inr a \<longrightarrow> acc_of a = i)) \<and>
     (\<forall>a w r w'. acc_await E a w = Some (r, w') \<longrightarrow> waiting w' = waiting w \<and> arrived w' = arrived w \<and>
        (\<forall>c. r = Inr c \<longrightarrow> conn_of c = acc_of a)) \<and>
     (\<forall>c w r w'. cn_accept_bi C c w = Some (r, w') \<longrightarrow> waiting w' = waiting w \<and> arrived w' = arrived w) \<and>
     (\<forall>w w'. env w w' \<longrightarrow> (\<exists>new. waiting w' = waiting w @ new \<and> arrived w' = arrived w @ new))"

lemma incoming_lawD:
  assumes "incoming_law C E env ep arrived waiting acc_of conn_of"
  shows "ep_accept E ep w = Some (Some i, w') \<Longrightarrow> waiting w = i # waiting w' \<and> arrived w' = arrived w"
    and "ep_accept E ep w = Some (None, w') \<Longrightarrow> waiting w' = waiting w \<and> arrived w' = arrived w"
    and "inc_accept E i w = (r, w') \<Longrightarrow> waiting w' = waiting w \<and> arrived w' = arrived w"
    and "inc_accept E i w = (Inr a, w') \<Longrightarrow> acc_of a = i"
    and "acc_await E a w = Some (q, w') \<Longrightarrow> waiting w' = waiting w \<and> arrived w' = arrived w"
    and "acc_await E a w = Some (Inr c, w') \<Longrightarrow> conn_of c = acc_of a"
    and "cn_accept_bi C c w = Some (s, w') \<Longrightarrow> waiting w' = waiting w \<and> arrived w' = arrived w"
    and "env w w' \<Longrightarrow> \<exists>new. waiting w' = waiting w @ new \<and> arrived w' = arrived w @ new"
  using assms unfolding incoming_law_def by metis+

text \<open>What a state promises: the handshake, connection and result belong to the connection taken.\<close>

fun traces_to :: "('acc \<Rightarrow> 'inc) \<Rightarrow> ('conn \<Rightarrow> 'inc) \<Rightarrow> ('inc, 'acc, 'conn, 'snd, 'rcv) accept_task \<Rightarrow> bool" where
  "traces_to acc_of conn_of (AwaitHandshake k i a) \<longleftrightarrow> acc_of a = i"
| "traces_to acc_of conn_of (AwaitStream i c) \<longleftrightarrow> conn_of (ic_inner c) = i"
| "traces_to acc_of conn_of (Returned i (ConnResult (Inr (Some c)))) \<longleftrightarrow> i = Some (conn_of (ic_inner c))"
| "traces_to acc_of conn_of (Returned i (NextResult (Inr (Some c)))) \<longleftrightarrow> i = Some (conn_of (is_conn (in_stream c)))"
| "traces_to acc_of conn_of _ \<longleftrightarrow> True"

text \<open>Every connection that arrived waits or was taken by one call, in order.\<close>

definition accept_inv ::
  "('w \<Rightarrow> 'inc list) \<Rightarrow> ('w \<Rightarrow> 'inc list) \<Rightarrow> ('acc \<Rightarrow> 'inc) \<Rightarrow> ('conn \<Rightarrow> 'inc) \<Rightarrow> (nat \<times> 'inc) list \<Rightarrow>
   ('inc, 'acc, 'conn, 'snd, 'rcv, 'w) accept_sys \<Rightarrow> bool" where
  "accept_inv arrived waiting acc_of conn_of taken s \<longleftrightarrow>
     arrived (acs_world s) = map snd taken @ waiting (acs_world s) \<and> distinct (map fst taken) \<and>
     (\<forall>t i. (t, i) \<in> set taken \<longleftrightarrow> took (acs_tasks s t) = Some i) \<and>
     (\<forall>t. traces_to acc_of conn_of (acs_tasks s t))"

lemma accept_bi_conn:
  assumes "IrohConnection_accept_bi C conn w = Some (r, w')"
  shows "\<exists>s. cn_accept_bi C (ic_inner conn) w = Some (s, w')" "r = Inr stream \<Longrightarrow> is_conn stream = ic_inner conn"
  using assms by (auto simp: IrohConnection_accept_bi_def IrohStream_new_def async_simps result_simps)

text \<open>A poll either takes the first connection waiting or leaves the queue alone.\<close>

lemma accept_poll_effect:
  assumes law: "incoming_law C E env (ie_inner self) arrived waiting acc_of conn_of"
    and poll: "accept_poll K C E self p w = Some (p', w')" and tr: "traces_to acc_of conn_of p"
  shows "arrived w' = arrived w \<and> traces_to acc_of conn_of p' \<and>
     (took p = None \<and> (\<exists>i. took p' = Some i \<and> waiting w = i # waiting w') \<or>
      took p' = took p \<and> waiting w' = waiting w)"
proof (cases p)
  case (AwaitIncoming k)
  with poll incoming_lawD(1,2) [OF law] show ?thesis
    by (auto simp: accept_closed_def split: option.splits accept_call.splits)
next
  case (GotIncoming k i)
  with poll incoming_lawD(3,4) [OF law] show ?thesis
    by (auto simp: accept_error_def split: prod.splits sum.splits accept_call.splits)
next
  case (AwaitHandshake k i a)
  with poll tr incoming_lawD(5,6) [OF law] show ?thesis
    by (auto simp: accept_error_def IrohConnection_new_def split: option.splits sum.splits accept_call.splits)
next
  case (AwaitStream i conn)
  then obtain r where bi: "IrohConnection_accept_bi C conn w = Some (r, w')"
    using poll by (auto split: option.splits sum.splits)
  then have "arrived w' = arrived w" "waiting w' = waiting w"
    using accept_bi_conn(1) [OF bi] incoming_lawD(7) [OF law] by blast+
  with AwaitStream poll tr bi accept_bi_conn(2) [OF bi] show ?thesis by (auto split: sum.splits)
qed (use poll in simp_all)

lemma accept_drop_effect:
  assumes "accept_drop p = Some p'"
  shows "took p' = took p" "traces_to acc_of conn_of p'"
  using assms by (cases p; auto)+

lemma accept_inv_stay:
  assumes "accept_inv arrived waiting acc_of conn_of taken s" "took p = took (acs_tasks s t)"
    and "traces_to acc_of conn_of p" "arrived w = arrived (acs_world s)" "waiting w = waiting (acs_world s)"
  shows "accept_inv arrived waiting acc_of conn_of taken (s\<lparr>acs_tasks := (acs_tasks s)(t := p), acs_world := w\<rparr>)"
  using assms by (simp add: accept_inv_def)

lemma accept_inv_take:
  assumes inv: "accept_inv arrived waiting acc_of conn_of taken s" and t: "took (acs_tasks s t) = None"
    and p: "took p = Some i" "traces_to acc_of conn_of p"
    and w: "arrived w = arrived (acs_world s)" "waiting (acs_world s) = i # waiting w"
  shows "accept_inv arrived waiting acc_of conn_of (taken @ [(t, i)])
     (s\<lparr>acs_tasks := (acs_tasks s)(t := p), acs_world := w\<rparr>)"
proof -
  have mem: "(t', j) \<in> set taken \<longleftrightarrow> took (acs_tasks s t') = Some j" for t' j
    using inv by (simp add: accept_inv_def)
  then have "t \<notin> fst ` set taken" using t by force
  with inv p w mem t show ?thesis by (auto simp: accept_inv_def)
qed

lemma accept_inv_step:
  assumes law: "incoming_law C E env (ie_inner self) arrived waiting acc_of conn_of"
    and "accept_step K C E self env s s'" "accept_inv arrived waiting acc_of conn_of taken s"
  shows "\<exists>taken'. accept_inv arrived waiting acc_of conn_of taken' s'"
  using assms(2,3)
proof (induction rule: accept_step.induct)
  case (acall s t k)
  then show ?case using accept_inv_stay [OF acall(2), of "AwaitIncoming k" t "acs_world s"] by auto
next
  case (apoll s t p w)
  have "traces_to acc_of conn_of (acs_tasks s t)" using apoll(2) by (simp add: accept_inv_def)
  from accept_poll_effect [OF law apoll(1) this] consider
      i where "took (acs_tasks s t) = None" "took p = Some i" "waiting (acs_world s) = i # waiting w"
        "traces_to acc_of conn_of p" "arrived w = arrived (acs_world s)"
    | "took p = took (acs_tasks s t)" "waiting w = waiting (acs_world s)"
        "traces_to acc_of conn_of p" "arrived w = arrived (acs_world s)"
    by blast
  then show ?case
    using accept_inv_take [OF apoll(2)] accept_inv_stay [OF apoll(2)] by cases blast+
next
  case (adrop s t p)
  then show ?case
    using accept_inv_stay [OF adrop(2), of p t "acs_world s"] accept_drop_effect [OF adrop(1)] by auto
next
  case (anetwork s w)
  then show ?case using incoming_lawD(8) [OF law anetwork(1)] by (auto simp: accept_inv_def)
qed

lemma accept_inv_reach:
  assumes "incoming_law C E env (ie_inner self) arrived waiting acc_of conn_of" "arrived w0 = waiting w0"
    and "accept_reach K C E self env w0 s"
  shows "\<exists>taken. accept_inv arrived waiting acc_of conn_of taken s"
  using assms(3)
proof induction
  case accept_start
  then show ?case using assms(2) by (intro exI [of _ "[]"]) (simp add: accept_inv_def)
next
  case (accept_more s s')
  then show ?case using accept_inv_step [OF assms(1)] by blast
qed

section \<open>The accept loop\<close>







section \<open>A concrete run\<close>

text \<open>An executable scheduler for calls, polls and drops.\<close>

datatype accept_action = CallAccept nat accept_call | PollAccept nat | DropAccept nat

fun accept_act ::
  "('pk, 'sk, 'sig, 'kerr) key_api \<Rightarrow> ('w, 'conn, 'snd, 'rcv, 'vi, 'se, 'x, 'pk, 'z) conn_api_scheme \<Rightarrow>
   ('w, 'ep, 'conn, 'inc, 'acc, 'b, 'pk, 'sk, 'addr, 'e) ep_api \<Rightarrow> 'ep IrohEndpoint \<Rightarrow> accept_action \<Rightarrow>
   ('inc, 'acc, 'conn, 'snd, 'rcv, 'w) accept_sys \<Rightarrow> ('inc, 'acc, 'conn, 'snd, 'rcv, 'w) accept_sys option" where
  "accept_act K C E self (CallAccept t k) s =
     (case acs_tasks s t of NotCalled \<Rightarrow> Some (s\<lparr>acs_tasks := (acs_tasks s)(t := AwaitIncoming k)\<rparr>) | _ \<Rightarrow> None)"
| "accept_act K C E self (PollAccept t) s =
     map_option (\<lambda>(p, w). s\<lparr>acs_tasks := (acs_tasks s)(t := p), acs_world := w\<rparr>)
       (accept_poll K C E self (acs_tasks s t) (acs_world s))"
| "accept_act K C E self (DropAccept t) s =
     map_option (\<lambda>p. s\<lparr>acs_tasks := (acs_tasks s)(t := p)\<rparr>) (accept_drop (acs_tasks s t))"

fun accept_run ::
  "('pk, 'sk, 'sig, 'kerr) key_api \<Rightarrow> ('w, 'conn, 'snd, 'rcv, 'vi, 'se, 'x, 'pk, 'z) conn_api_scheme \<Rightarrow>
   ('w, 'ep, 'conn, 'inc, 'acc, 'b, 'pk, 'sk, 'addr, 'e) ep_api \<Rightarrow> 'ep IrohEndpoint \<Rightarrow> accept_action list \<Rightarrow>
   ('inc, 'acc, 'conn, 'snd, 'rcv, 'w) accept_sys \<Rightarrow> ('inc, 'acc, 'conn, 'snd, 'rcv, 'w) accept_sys option" where
  "accept_run K C E self [] s = Some s"
| "accept_run K C E self (a # as) s = Option.bind (accept_act K C E self a s) (accept_run K C E self as)"

lemma accept_act_step: "accept_act K C E self a s = Some s' \<Longrightarrow> accept_step K C E self env s s'"
  by (cases a) (auto intro: accept_step.intros split: accept_task.splits)

lemma accept_run_reach:
  "accept_run K C E self as s = Some s' \<Longrightarrow> accept_reach K C E self env w0 s \<Longrightarrow> accept_reach K C E self env w0 s'"
proof (induction as arbitrary: s)
  case (Cons a as)
  then obtain s1 where "accept_act K C E self a s = Some s1" "accept_run K C E self as s1 = Some s'"
    by (auto simp: bind_eq_Some_conv)
  with Cons accept_reach.accept_more [OF Cons.prems(2) accept_act_step] show ?case by blast
qed simp

text \<open>More connections may come at any time.\<close>

definition demo_arrivals :: "demo_net \<Rightarrow> demo_net \<Rightarrow> bool" where
  "demo_arrivals w w' \<longleftrightarrow> (\<exists>new. w' = w\<lparr>dn_queue := dn_queue w @ new, dn_arrived := dn_arrived w @ new\<rparr>)"

lemma demo_incoming_law:
  "incoming_law demo_conn_api demo_ep_api demo_arrivals (ie_inner demo_ep) dn_arrived dn_queue (\<lambda>a. a) (\<lambda>c. c)"
  by (auto simp: incoming_law_def demo_ep_api_def demo_arrivals_def split: list.splits)


definition demo_waiting :: demo_net where
  "demo_waiting = demo_world\<lparr>dn_queue := [7, 8, 9], dn_arrived := [7, 8, 9]\<rparr>"

text \<open>An \<^verbatim>\<open>accept_next\<close> dropped while it waits for its peer's stream, and a concurrent \<^verbatim>\<open>accept_conn\<close>.\<close>

definition demo_accepts :: "accept_action list" where
  "demo_accepts =
     [CallAccept 0 AcceptNext, CallAccept 1 AcceptConn, PollAccept 0, PollAccept 1, PollAccept 0, PollAccept 1,
      PollAccept 0, DropAccept 0, PollAccept 1]"

lemma demo_accepts_run:
  "\<exists>s. accept_run demo_keys demo_conn_api demo_ep_api demo_ep demo_accepts
       \<lparr>acs_tasks = (\<lambda>_. NotCalled), acs_world = demo_waiting\<rparr> = Some s \<and>
     acs_tasks s 0 = Dropped (Some 7) \<and> acs_tasks s 1 = Returned (Some 8) (ConnResult (Inr (Some (IrohConnection_new 8)))) \<and>
     dn_queue (acs_world s) = [9] \<and> dn_arrived (acs_world s) = [7, 8, 9]"
  by (simp add: demo_accepts_def demo_ep_api_def demo_waiting_def demo_world_def)

section \<open>Properties\<close>

text \<open>C3: Concurrent accepts never lose, repeat or reorder a connection between them.  However
  calls of \<^verbatim>\<open>accept_conn\<close> and \<^verbatim>\<open>accept_next\<close> overlap, fail or are cancelled, the connections
  that arrived are those taken, in order of arrival and by one call each, followed by
  those still waiting; a connection that a call returns is the one it took.\<close>

theorem accept_exactly_once:
  assumes "incoming_law C E env (ie_inner self) arrived waiting acc_of conn_of" "arrived w0 = waiting w0"
    and "accept_reach K C E self env w0 s"
  shows "\<exists>taken. arrived (acs_world s) = map snd taken @ waiting (acs_world s) \<and> distinct (map fst taken) \<and>
     (\<forall>t i. (t, i) \<in> set taken \<longleftrightarrow> took (acs_tasks s t) = Some i) \<and>
     (\<forall>t j c. acs_tasks s t = Returned j (ConnResult (Inr (Some c))) \<longrightarrow> (t, conn_of (ic_inner c)) \<in> set taken) \<and>
     (\<forall>t j c. acs_tasks s t = Returned j (NextResult (Inr (Some c))) \<longrightarrow>
        (t, conn_of (is_conn (in_stream c))) \<in> set taken)"
proof -
  obtain taken where inv: "accept_inv arrived waiting acc_of conn_of taken s"
    using accept_inv_reach [OF assms] by blast
  then have mem: "(t, i) \<in> set taken \<longleftrightarrow> took (acs_tasks s t) = Some i"
    and tr: "traces_to acc_of conn_of (acs_tasks s t)" for t i by (simp_all add: accept_inv_def)
  have "(t, conn_of (ic_inner c)) \<in> set taken" if "acs_tasks s t = Returned j (ConnResult (Inr (Some c)))" for t j c
    using that tr [of t] mem by simp
  moreover have "(t, conn_of (is_conn (in_stream c))) \<in> set taken"
    if "acs_tasks s t = Returned j (NextResult (Inr (Some c)))" for t j c
    using that tr [of t] mem by simp
  ultimately show ?thesis using inv mem by (auto simp: accept_inv_def)
qed

theorem accept_exactly_once_witness:
  "\<exists>s taken. accept_reach demo_keys demo_conn_api demo_ep_api demo_ep demo_arrivals demo_waiting s \<and>
     [7, 8, 9 :: nat] = map snd taken @ [9] \<and> (0 :: nat, 7) \<in> set taken \<and> (1, 8) \<in> set taken \<and> acs_tasks s 0 = Dropped (Some 7)"
proof -
  obtain s where run: "accept_run demo_keys demo_conn_api demo_ep_api demo_ep demo_accepts
       \<lparr>acs_tasks = (\<lambda>_. NotCalled), acs_world = demo_waiting\<rparr> = Some s"
    and s: "acs_tasks s 0 = Dropped (Some 7)"
      "acs_tasks s 1 = Returned (Some 8) (ConnResult (Inr (Some (IrohConnection_new 8))))"
      "dn_queue (acs_world s) = [9]" "dn_arrived (acs_world s) = [7, 8, 9]"
    using demo_accepts_run by blast
  have reach: "accept_reach demo_keys demo_conn_api demo_ep_api demo_ep demo_arrivals demo_waiting s"
    by (rule accept_run_reach [OF run accept_reach.accept_start])
  have "dn_arrived demo_waiting = dn_queue demo_waiting" by (simp add: demo_waiting_def)
  from accept_exactly_once [OF demo_incoming_law this reach]
  obtain taken where "dn_arrived (acs_world s) = map snd taken @ dn_queue (acs_world s)"
    and mem: "\<forall>t i. (t, i) \<in> set taken \<longleftrightarrow> took (acs_tasks s t) = Some i" by blast
  moreover from mem s have "(0, 7) \<in> set taken" "(1, 8) \<in> set taken" by simp_all
  ultimately show ?thesis using reach s by (intro exI [of _ s] exI [of _ taken]) simp
qed

text \<open>C9: An accept call that nothing interrupts is the sequential method: polled four times it
  returns what \<^verbatim>\<open>accept_conn\<close> or \<^verbatim>\<open>accept_next\<close> returns and leaves the same state, and it does not
  return when the method does not.\<close>

theorem accept_poll_refines:
  "poll_alone K C E self 4 (AwaitIncoming AcceptConn) w =
     map_option (\<lambda>(r, w'). (ConnResult r, w')) (IrohEndpoint_accept_conn E self w) \<and>
   poll_alone K C E self 4 (AwaitIncoming AcceptNext) w =
     map_option (\<lambda>(r, w'). (NextResult r, w')) (IrohEndpoint_accept_next K C E self w)"
proof (cases "ep_accept E (ie_inner self) w")
  case None
  then show ?thesis by (simp add: eval_nat_numeral IrohEndpoint_accept_next_def IrohEndpoint_accept_conn_def)
next
  case (Some q)
  obtain incoming w1 where q: "q = (incoming, w1)" by (cases q)
  show ?thesis
  proof (cases incoming)
    case None
    then show ?thesis
      using Some q
      by (simp add: eval_nat_numeral accept_closed_def IrohEndpoint_accept_next_def IrohEndpoint_accept_conn_def)
  next
    case (Some i)
    obtain r w2 where inc: "inc_accept E i w1 = (r, w2)" by (cases "inc_accept E i w1")
    have got: "ep_accept E (ie_inner self) w = Some (Some i, w1)" using \<open>ep_accept E (ie_inner self) w = Some q\<close> q Some by simp
    show ?thesis
    proof (cases r)
      case (Inl e)
      with got inc show ?thesis
        by (simp add: eval_nat_numeral accept_error_def IrohEndpoint_accept_next_def IrohEndpoint_accept_conn_def)
    next
      case (Inr a)
      have conn: "IrohEndpoint_accept_conn E self w =
          await_try (await_map (acc_await E a) (map_err (\<lambda>e. Generic (ep_err_debug E e))))
            (\<lambda>conn. ready (Inr (Some (IrohConnection_new conn)))) w2"
        using got inc Inr by (simp add: IrohEndpoint_accept_conn_def)
      have polls: "poll_alone K C E self 4 (AwaitIncoming k) w = poll_alone K C E self (Suc (Suc 0)) (AwaitHandshake k i a) w2" for k
        using got inc Inr by (simp add: eval_nat_numeral)
      show ?thesis
        unfolding polls poll_handshake IrohEndpoint_accept_next_def conn
          await_try_nested [where act = "IrohEndpoint_accept_conn E self" and w = w, OF conn]
        by (simp add: Let_def)
    qed
  qed
qed



text \<open>C11: Any mix of \<^verbatim>\<open>accept_conn\<close> and \<^verbatim>\<open>accept_next\<close> calls, one after the other, returns the waiting
  connections in order of arrival, each exactly once.\<close>

theorem accept_queue_in_order:
  assumes "accept_law C E queue" "length calls \<le> length (queue (ie_inner self) w)"
  shows "\<exists>w'. serve K C E self calls w = Some (Inr (map Some (take (length calls) (queue (ie_inner self) w))), w') \<and>
     queue (ie_inner self) w' = drop (length calls) (queue (ie_inner self) w)"
  using assms(2)
proof (induction calls arbitrary: w)
  case (Cons a as)
  then obtain c cs where q: "queue (ie_inner self) w = c # cs"
    by (cases "queue (ie_inner self) w") auto
  obtain w1 where w1: "accept_one K C E self a w = Some (Inr (Some c), w1)" "queue (ie_inner self) w1 = cs"
    using accept_one_head [OF assms(1) q] by blast
  with Cons q obtain w2 where "serve K C E self as w1 = Some (Inr (map Some (take (length as) cs)), w2)"
    "queue (ie_inner self) w2 = drop (length as) cs" by force
  with w1 q show ?case by simp
qed simp

theorem accept_queue_in_order_witness:
  "\<exists>w'. serve demo_keys demo_conn_api demo_ep_api demo_ep [AcceptNext, AcceptConn] (demo_world\<lparr>dn_queue := [7, 8, 9]\<rparr>) =
     Some (Inr [Some 7, Some 8], w') \<and> demo_queue demo_key w' = [9]"
  using accept_queue_in_order [OF demo_ep_laws(5), of "[AcceptNext, AcceptConn]" demo_ep "demo_world\<lparr>dn_queue := [7, 8, 9]\<rparr>" demo_keys]
  by (simp add: demo_queue_def demo_ep_def)

text \<open>C39: A peer that connects and never opens a stream holds up \<^verbatim>\<open>accept_next\<close>: the call waits
  for that peer's stream and does not return, however many other connections wait,
  while \<^verbatim>\<open>accept_conn\<close> returns the connection.\<close>

theorem silent_peer_blocks_accept_next:
  assumes "ep_accept E (ie_inner self) w = Some (Some inc, w1)" "inc_accept E inc w1 = (Inr acc, w2)"
    and "acc_await E acc w2 = Some (Inr c, w3)" "cn_accept_bi C c w3 = None"
  shows "IrohEndpoint_accept_next K C E self w = None \<and>
     IrohEndpoint_accept_conn E self w = Some (Inr (Some (IrohConnection_new c)), w3)"
proof -
  have conn: "IrohEndpoint_accept_conn E self w = Some (Inr (Some (IrohConnection_new c)), w3)"
    using assms(1-3) by (simp add: IrohEndpoint_accept_conn_def)
  have "IrohConnection_accept_bi C (IrohConnection_new c) w3 = None"
    using assms(4) by (simp add: IrohConnection_accept_bi_def IrohConnection_new_def await_map_def)
  with conn show ?thesis by (simp add: IrohEndpoint_accept_next_def Let_def)
qed

theorem silent_peer_blocks_accept_next_witness:
  "IrohEndpoint_accept_next demo_keys (demo_conn_api\<lparr>cn_accept_bi := \<lambda>c w. None\<rparr>) demo_ep_api demo_ep
     (demo_world\<lparr>dn_queue := [7, 8]\<rparr>) = None"
  using silent_peer_blocks_accept_next [of demo_ep_api demo_ep "demo_world\<lparr>dn_queue := [7, 8]\<rparr>" 7
      "demo_world\<lparr>dn_queue := [8]\<rparr>" 7 "demo_world\<lparr>dn_queue := [8]\<rparr>" 7 "demo_world\<lparr>dn_queue := [8]\<rparr>"
      "demo_conn_api\<lparr>cn_accept_bi := \<lambda>c w. None\<rparr>" demo_keys]
  by (simp add: demo_ep_api_def)

end
