(* ===== verification/Stream_Locks.thy ===== *)
theory Stream_Locks
  imports Stream
begin

text \<open>
  stream.rs under concurrency.  Each half of a stream object sits behind its own
  \<^verbatim>\<open>tokio::sync::Mutex\<close>; any number of calls run at once, from the async runtime and from
  foreign threads.  The model is a step relation: a call computes its arguments, waits
  for the mutex of its half, polls the library's operation under the guard until it is
  ready, and returns.  Between any two steps of one call, any other call and the network
  may move, and a call awaited by the runtime may be cancelled (its future dropped).

  The mutex is tokio's, a parameter with its documented law (mutual exclusion); so is
  the library's operation, as the future it is: \<open>op_poll\<close> advances it by one poll.
\<close>

section \<open>Calls and their guards\<close>

datatype half = SendHalf | RecvHalf

text \<open>
  Every exported method of the three objects that uses a half, with its arguments.
  \<open>Stopped\<close> exists on the uni-directional sending stream only.
\<close>

datatype stream_call =
    SendBytes bytes | Recv u32 | Finish | ReadExact u32 | ReadToEnd u32
  | SetPriority i32 | Priority | Reset u64 | Stop u64 | SendId | RecvId | Stopped

fun call_half :: "stream_call \<Rightarrow> half" where
  "call_half (SendBytes _) = SendHalf"
| "call_half (Recv _) = RecvHalf"
| "call_half Finish = SendHalf"
| "call_half (ReadExact _) = RecvHalf"
| "call_half (ReadToEnd _) = RecvHalf"
| "call_half (SetPriority _) = SendHalf"
| "call_half Priority = SendHalf"
| "call_half (Reset _) = SendHalf"
| "call_half (Stop _) = RecvHalf"
| "call_half SendId = SendHalf"
| "call_half RecvId = RecvHalf"
| "call_half Stopped = SendHalf"

text \<open>
  How the guard is taken: \<^verbatim>\<open>lock().await\<close> suspends the task, \<^verbatim>\<open>blocking_lock()\<close> blocks the
  thread.  Where the method runs: the methods exported with
  \<^verbatim>\<open>async_runtime = "tokio"\<close> run inside the runtime, the others on the caller's thread.
\<close>

datatype lock_kind = LockAwait | BlockingLock

datatype exec_context = InRuntime | ForeignThread

fun call_lock_kind :: "stream_call \<Rightarrow> lock_kind" where
  "call_lock_kind (SendBytes _) = LockAwait"
| "call_lock_kind (Recv _) = LockAwait"
| "call_lock_kind Finish = LockAwait"
| "call_lock_kind (ReadExact _) = LockAwait"
| "call_lock_kind (ReadToEnd _) = LockAwait"
| "call_lock_kind (SetPriority _) = BlockingLock"
| "call_lock_kind Priority = BlockingLock"
| "call_lock_kind (Reset _) = BlockingLock"
| "call_lock_kind (Stop _) = BlockingLock"
| "call_lock_kind SendId = BlockingLock"
| "call_lock_kind RecvId = BlockingLock"
| "call_lock_kind Stopped = LockAwait"

fun call_context :: "stream_call \<Rightarrow> exec_context" where
  "call_context (SendBytes _) = InRuntime"
| "call_context (Recv _) = InRuntime"
| "call_context Finish = InRuntime"
| "call_context (ReadExact _) = InRuntime"
| "call_context (ReadToEnd _) = InRuntime"
| "call_context (SetPriority _) = ForeignThread"
| "call_context Priority = ForeignThread"
| "call_context (Reset _) = ForeignThread"
| "call_context (Stop _) = ForeignThread"
| "call_context SendId = ForeignThread"
| "call_context RecvId = ForeignThread"
| "call_context Stopped = InRuntime"

text \<open>
  \<^verbatim>\<open>stopped\<close> drops its guard once the library has handed out the future
  (\<^verbatim>\<open>self.inner.lock().await.stopped()\<close> is a statement of its own) and awaits it without;
  every other method holds its guard until it returns.
\<close>

definition guard_dropped_early :: "stream_call \<Rightarrow> bool" where
  "guard_dropped_early c \<longleftrightarrow> c = Stopped"

text \<open>The error that \<^verbatim>\<open>reset\<close> and \<^verbatim>\<open>stop\<close> return before they touch the mutex.\<close>

definition early_error ::
  "('w, 'conn, 'snd, 'rcv, 'vi, 'e, 'z) stream_api_scheme \<Rightarrow> stream_call \<Rightarrow> IrohError option" where
  "early_error S c =
     (case c of
        Reset code \<Rightarrow>
          (case map_err (IrohError_msg (st_err S)) (varint_from_u64 S code) of Inl e \<Rightarrow> Some e | Inr _ \<Rightarrow> None)
      | Stop code \<Rightarrow>
          (case map_err (IrohError_msg (st_err S)) (varint_from_u64 S code) of Inl e \<Rightarrow> Some e | Inr _ \<Rightarrow> None)
      | _ \<Rightarrow> None)"

section \<open>The parameters\<close>

record 'm mutex_api =
  mx_acquire :: "'m \<Rightarrow> nat \<Rightarrow> 'm option"
  mx_release :: "'m \<Rightarrow> 'm"
  mx_holder :: "'m \<Rightarrow> nat option"

text \<open>A mutex is acquired only when free, can be acquired when free, and is free after release.\<close>

definition mutex_laws :: "'m mutex_api \<Rightarrow> bool" where
  "mutex_laws M \<longleftrightarrow>
     (\<forall>m t m'. mx_acquire M m t = Some m' \<longrightarrow> mx_holder M m = None \<and> mx_holder M m' = Some t) \<and>
     (\<forall>m t. mx_holder M m = None \<longrightarrow> mx_acquire M m t \<noteq> None) \<and>
     (\<forall>m. mx_holder M (mx_release M m) = None)"

text \<open>
  The object's methods, and the library's operation for each: its initial future, one
  poll of it (pending with the rest of the operation, or ready with the value), and what
  the network may do to the state of the stream on its own.
\<close>

record ('s, 'op, 'v) op_api =
  op_offers :: "stream_call \<Rightarrow> bool"
  op_start :: "stream_call \<Rightarrow> 'op"
  op_poll :: "'op \<Rightarrow> 's \<Rightarrow> ('op + 'v iroh_result) \<times> 's"
  op_env :: "'s \<Rightarrow> 's \<Rightarrow> bool"

section \<open>The step relation\<close>

datatype ('op, 'v) task =
    Idle
  | Called stream_call
  | Waiting stream_call
  | Holding stream_call 'op
  | Detached stream_call 'op
  | Done stream_call "'v iroh_result"
  | Cancelled stream_call

record ('m, 's, 'op, 'v) stream_sys =
  sys_mutex :: "half \<Rightarrow> 'm"
  sys_data :: 's
  sys_tasks :: "nat \<Rightarrow> ('op, 'v) task"

definition set_task :: "nat \<Rightarrow> ('op, 'v) task \<Rightarrow> ('m, 's, 'op, 'v) stream_sys \<Rightarrow> ('m, 's, 'op, 'v) stream_sys" where
  "set_task t p s = s\<lparr>sys_tasks := (sys_tasks s)(t := p)\<rparr>"

definition set_mutex :: "half \<Rightarrow> 'm \<Rightarrow> ('m, 's, 'op, 'v) stream_sys \<Rightarrow> ('m, 's, 'op, 'v) stream_sys" where
  "set_mutex h m s = s\<lparr>sys_mutex := (sys_mutex s)(h := m)\<rparr>"

definition set_data :: "'s \<Rightarrow> ('m, 's, 'op, 'v) stream_sys \<Rightarrow> ('m, 's, 'op, 'v) stream_sys" where
  "set_data d s = s\<lparr>sys_data := d\<rparr>"

definition release :: "'m mutex_api \<Rightarrow> half \<Rightarrow> ('m, 's, 'op, 'v) stream_sys \<Rightarrow> ('m, 's, 'op, 'v) stream_sys" where
  "release M h s = set_mutex h (mx_release M (sys_mutex s h)) s"

lemma sys_select [simp]:
  "sys_tasks (set_task t p s) = (sys_tasks s)(t := p)"
  "sys_mutex (set_task t p s) = sys_mutex s"
  "sys_data (set_task t p s) = sys_data s"
  "sys_tasks (set_mutex h m s) = sys_tasks s"
  "sys_mutex (set_mutex h m s) = (sys_mutex s)(h := m)"
  "sys_data (set_mutex h m s) = sys_data s"
  "sys_tasks (set_data d s) = sys_tasks s"
  "sys_mutex (set_data d s) = sys_mutex s"
  "sys_data (set_data d s) = d"
  "sys_tasks (release M h s) = sys_tasks s"
  "sys_mutex (release M h s) = (sys_mutex s)(h := mx_release M (sys_mutex s h))"
  "sys_data (release M h s) = sys_data s"
  by (simp_all add: set_task_def set_mutex_def set_data_def release_def)

text \<open>The calls whose future the runtime can drop: at an \<^verbatim>\<open>await\<close>, so never inside a blocking call.\<close>

definition cancellable :: "stream_call \<Rightarrow> bool" where
  "cancellable c \<longleftrightarrow> call_context c = InRuntime"

inductive stream_step ::
  "('w, 'conn, 'snd, 'rcv, 'vi, 'e, 'z) stream_api_scheme \<Rightarrow> 'm mutex_api \<Rightarrow> ('s, 'op, 'v) op_api \<Rightarrow>
   ('m, 's, 'op, 'v) stream_sys \<Rightarrow> ('m, 's, 'op, 'v) stream_sys \<Rightarrow> bool"
  for S M L where
  call: "sys_tasks s t = Idle \<Longrightarrow> op_offers L c \<Longrightarrow> stream_step S M L s (set_task t (Called c) s)"
| early: "sys_tasks s t = Called c \<Longrightarrow> early_error S c = Some e \<Longrightarrow>
    stream_step S M L s (set_task t (Done c (Inl e)) s)"
| enqueue: "sys_tasks s t = Called c \<Longrightarrow> early_error S c = None \<Longrightarrow>
    stream_step S M L s (set_task t (Waiting c) s)"
| acquire: "sys_tasks s t = Waiting c \<Longrightarrow> mx_acquire M (sys_mutex s (call_half c)) t = Some m \<Longrightarrow>
    stream_step S M L s (set_task t (Holding c (op_start L c)) (set_mutex (call_half c) m s))"
| poll_pending: "sys_tasks s t = Holding c op \<Longrightarrow> \<not> guard_dropped_early c \<Longrightarrow>
    op_poll L op (sys_data s) = (Inl op', d) \<Longrightarrow>
    stream_step S M L s (set_task t (Holding c op') (set_data d s))"
| poll_ready: "sys_tasks s t = Holding c op \<Longrightarrow> \<not> guard_dropped_early c \<Longrightarrow>
    op_poll L op (sys_data s) = (Inr r, d) \<Longrightarrow>
    stream_step S M L s (release M (call_half c) (set_task t (Done c r) (set_data d s)))"
| detach: "sys_tasks s t = Holding c op \<Longrightarrow> guard_dropped_early c \<Longrightarrow>
    stream_step S M L s (release M (call_half c) (set_task t (Detached c op) s))"
| detached_pending: "sys_tasks s t = Detached c op \<Longrightarrow> op_poll L op (sys_data s) = (Inl op', d) \<Longrightarrow>
    stream_step S M L s (set_task t (Detached c op') (set_data d s))"
| detached_ready: "sys_tasks s t = Detached c op \<Longrightarrow> op_poll L op (sys_data s) = (Inr r, d) \<Longrightarrow>
    stream_step S M L s (set_task t (Done c r) (set_data d s))"
| cancel_waiting: "sys_tasks s t = Waiting c \<Longrightarrow> cancellable c \<Longrightarrow>
    stream_step S M L s (set_task t (Cancelled c) s)"
| cancel_holding: "sys_tasks s t = Holding c op \<Longrightarrow> cancellable c \<Longrightarrow>
    stream_step S M L s (release M (call_half c) (set_task t (Cancelled c) s))"
| cancel_detached: "sys_tasks s t = Detached c op \<Longrightarrow>
    stream_step S M L s (set_task t (Cancelled c) s)"
| network: "op_env L (sys_data s) d \<Longrightarrow> stream_step S M L s (set_data d s)"

inductive_cases stream_stepE: "stream_step S M L s s'"

text \<open>A fresh stream object: both mutexes free, no call made.\<close>

definition stream_init :: "'m mutex_api \<Rightarrow> 's \<Rightarrow> ('m, 's, 'op, 'v) stream_sys \<Rightarrow> bool" where
  "stream_init M d s \<longleftrightarrow>
     (\<forall>h. mx_holder M (sys_mutex s h) = None) \<and> (\<forall>t. sys_tasks s t = Idle) \<and> sys_data s = d"

inductive stream_reach ::
  "('w, 'conn, 'snd, 'rcv, 'vi, 'e, 'z) stream_api_scheme \<Rightarrow> 'm mutex_api \<Rightarrow> ('s, 'op, 'v) op_api \<Rightarrow>
   's \<Rightarrow> ('m, 's, 'op, 'v) stream_sys \<Rightarrow> bool"
  for S M L d where
  init: "stream_init M d s \<Longrightarrow> stream_reach S M L d s"
| step: "stream_reach S M L d s \<Longrightarrow> stream_step S M L s s' \<Longrightarrow> stream_reach S M L d s'"

section \<open>Mutual exclusion\<close>

text \<open>A half's mutex is held by exactly the task that is inside its guarded section.\<close>

fun in_section :: "half \<Rightarrow> ('op, 'v) task \<Rightarrow> bool" where
  "in_section h (Holding c op) \<longleftrightarrow> call_half c = h"
| "in_section h _ \<longleftrightarrow> False"

definition guard_inv :: "'m mutex_api \<Rightarrow> ('m, 's, 'op, 'v) stream_sys \<Rightarrow> bool" where
  "guard_inv M s \<longleftrightarrow> (\<forall>h t. mx_holder M (sys_mutex s h) = Some t \<longleftrightarrow> in_section h (sys_tasks s t))"

lemma mutex_lawsD:
  assumes "mutex_laws M"
  shows "mx_acquire M m t = Some m' \<Longrightarrow> mx_holder M m = None"
    and "mx_acquire M m t = Some m' \<Longrightarrow> mx_holder M m' = Some t"
    and "mx_holder M m = None \<Longrightarrow> mx_acquire M m t \<noteq> None"
    and "mx_holder M (mx_release M m) = None"
  using assms by (auto simp: mutex_laws_def)

lemma in_section_iff: "in_section h p \<longleftrightarrow> (\<exists>c op. p = Holding c op \<and> call_half c = h)"
  by (cases p) auto

lemma guard_invD: "guard_inv M s \<Longrightarrow> sys_tasks s t = Holding c op \<Longrightarrow> mx_holder M (sys_mutex s (call_half c)) = Some t"
  by (simp add: guard_inv_def)

lemma guard_inv_init: "stream_init M d s \<Longrightarrow> guard_inv M s"
  by (simp add: stream_init_def guard_inv_def)

text \<open>A task that leaves its section gives the guard back; nobody else was inside.\<close>

lemma guard_inv_leave:
  assumes M: "mutex_laws M" and inv: "guard_inv M s" and t: "sys_tasks s t = Holding c op"
    and out: "\<And>h. \<not> in_section h p"
  shows "guard_inv M (release M (call_half c) (set_task t p s))"
  unfolding guard_inv_def
proof (intro allI)
  fix h t'
  let ?s = "release M (call_half c) (set_task t p s)"
  have only: "t' = t" if "in_section (call_half c) (sys_tasks s t')"
    using that inv guard_invD [OF inv t] by (metis guard_inv_def option.inject)
  have eq: "mx_holder M (sys_mutex s h) = Some t' \<longleftrightarrow> in_section h (sys_tasks s t')"
    using inv by (simp add: guard_inv_def)
  show "mx_holder M (sys_mutex ?s h) = Some t' \<longleftrightarrow> in_section h (sys_tasks ?s t')"
  proof (cases "h = call_half c")
    case True
    with only out mutex_lawsD(4) [OF M] show ?thesis by auto
  next
    case False
    with eq t out show ?thesis by (cases "t' = t") auto
  qed
qed

lemma guard_inv_outside:
  assumes "guard_inv M s" "\<And>h. in_section h p = in_section h (sys_tasks s t)"
  shows "guard_inv M (set_task t p s)"
  using assms by (simp add: guard_inv_def)

lemma guard_inv_data [simp]: "guard_inv M (set_data d s) = guard_inv M s"
  by (simp add: guard_inv_def)

lemma guard_inv_step:
  assumes M: "mutex_laws M" and "stream_step S M L s s'" "guard_inv M s"
  shows "guard_inv M s'"
  using assms(2,3)
proof (induction rule: stream_step.induct)
  case (acquire s t c m)
  have "\<not> in_section (call_half c) (sys_tasks s t')" for t'
    using acquire mutex_lawsD(1) [OF M acquire(2)] by (metis guard_inv_def option.distinct(1))
  then show ?case
    using acquire mutex_lawsD(2) [OF M acquire(2)] by (auto simp: guard_inv_def)
next
  case (poll_ready s t c op r d)
  then show ?case using guard_inv_leave [OF M, of "set_data d s" t c op "Done c r"] by simp
qed (auto intro: guard_inv_leave [OF M] guard_inv_outside)

lemma guard_inv_reach:
  assumes "mutex_laws M" "stream_reach S M L d s"
  shows "guard_inv M s"
  using assms(2) by induction (auto intro: guard_inv_init guard_inv_step [OF assms(1)])

text \<open>What one step can do to a task that waits for a guard someone else holds.\<close>

lemma waiting_step:
  assumes M: "mutex_laws M" and inv: "guard_inv M s"
    and t: "sys_tasks s t = Holding c op" and t': "sys_tasks s t' = Waiting c'"
    and half: "call_half c = call_half c'" and step: "stream_step S M L s s'"
  shows "sys_tasks s' t' = Waiting c' \<or> sys_tasks s' t' = Cancelled c' \<and> cancellable c'"
proof -
  have "mx_acquire M (sys_mutex s (call_half c')) t' = None"
    using mutex_lawsD(1) [OF M] guard_invD [OF inv t] half
    by (metis not_None_eq option.distinct(1))
  with step t' show ?thesis by (elim stream_stepE) auto
qed

lemma only_in_section:
  assumes "guard_inv M s" "sys_tasks s t = Holding c op" "t' \<noteq> t"
  shows "\<not> in_section (call_half c) (sys_tasks s t')"
  using guard_invD [OF assms(1,2)] assms(1,3) by (metis guard_inv_def option.inject)

lemma none_in_section:
  assumes "mutex_laws M" "guard_inv M s" "mx_acquire M (sys_mutex s h) t = Some m"
  shows "\<not> in_section h (sys_tasks s t')"
  using mutex_lawsD(1) [OF assms(1,3)] assms(2) by (metis guard_inv_def option.distinct(1))

end
