(* ===== verification/Stream_Traffic.thy ===== *)
theory Stream_Traffic
  imports Stream_Locks "HOL-Library.Sublist"
begin

text \<open>
  The bytes that concurrent calls move through one half of a stream.  Each half keeps a
  log: what the send half has accepted, or what has been taken from the receive half.
  The locale \<open>half_traffic\<close> shows once that the log is one uninterrupted piece per call;
  it is interpreted for \<^verbatim>\<open>send_bytes\<close> on the send half and for the three reads on the
  receive half.
\<close>

section \<open>Polled operations that move bytes\<close>

text \<open>
  The documented behaviour of the library's operations, polled.  \<open>call_of\<close> and \<open>moved\<close>
  read a future: the call it serves and the bytes it has moved so far.  A call that
  moves bytes (\<open>mover\<close>) extends the log by what it moves in a poll, stays within \<open>part\<close>
  while pending and ends within \<open>fin\<close>; nothing else touches the log.
\<close>

definition traffic_laws ::
  "('s, 'op, 'v) op_api \<Rightarrow> (stream_call \<Rightarrow> bool) \<Rightarrow> (stream_call \<Rightarrow> bytes \<Rightarrow> bool) \<Rightarrow>
   (stream_call \<Rightarrow> bytes \<Rightarrow> 'v iroh_result \<Rightarrow> bool) \<Rightarrow> ('op \<Rightarrow> stream_call) \<Rightarrow> ('op \<Rightarrow> bytes) \<Rightarrow> ('s \<Rightarrow> bytes) \<Rightarrow> bool" where
  "traffic_laws L mover part fin call_of moved log \<longleftrightarrow>
     (\<forall>c. call_of (op_start L c) = c \<and> moved (op_start L c) = []) \<and>
     (\<forall>op d op' d'. op_poll L op d = (Inl op', d') \<longrightarrow> call_of op' = call_of op) \<and>
     (\<forall>op d op' d'. op_poll L op d = (Inl op', d') \<and> mover (call_of op) \<and> part (call_of op) (moved op) \<longrightarrow>
        (\<exists>g. log d' = log d @ g \<and> moved op' = moved op @ g \<and> part (call_of op) (moved op'))) \<and>
     (\<forall>op d v d'. op_poll L op d = (Inr v, d') \<and> mover (call_of op) \<and> part (call_of op) (moved op) \<longrightarrow>
        (\<exists>g. log d' = log d @ g \<and> fin (call_of op) (moved op @ g) v)) \<and>
     (\<forall>op d r d'. op_poll L op d = (r, d') \<and> \<not> mover (call_of op) \<longrightarrow> log d' = log d) \<and>
     (\<forall>d d'. op_env L d d' \<longrightarrow> log d' = log d)"

lemma traffic_lawsD:
  assumes "traffic_laws L mover part fin call_of moved log"
  shows "call_of (op_start L c) = c" "moved (op_start L c) = []"
    and "op_poll L op d = (Inl op', d') \<Longrightarrow> call_of op' = call_of op"
    and "op_poll L op d = (Inl op', d') \<Longrightarrow> mover (call_of op) \<Longrightarrow> part (call_of op) (moved op) \<Longrightarrow>
      \<exists>g. log d' = log d @ g \<and> moved op' = moved op @ g \<and> part (call_of op) (moved op')"
    and "op_poll L op d = (Inr v, d') \<Longrightarrow> mover (call_of op) \<Longrightarrow> part (call_of op) (moved op) \<Longrightarrow>
      \<exists>g. log d' = log d @ g \<and> fin (call_of op) (moved op @ g) v"
    and "op_poll L op d = (r, d') \<Longrightarrow> \<not> mover (call_of op) \<Longrightarrow> log d' = log d"
    and "op_env L d d' \<Longrightarrow> log d' = log d"
  using assms unfolding traffic_laws_def by metis+

section \<open>Pieces\<close>

text \<open>
  One piece per call that got the guard, in that order.  \<open>piece_ok\<close> says what the state of
  a task promises about its piece: it is the last one and growing while the call holds
  the guard, and what the call ended with afterwards.
\<close>

definition piece_ok ::
  "(stream_call \<Rightarrow> bool) \<Rightarrow> (stream_call \<Rightarrow> bytes \<Rightarrow> bool) \<Rightarrow> (stream_call \<Rightarrow> bytes \<Rightarrow> 'v iroh_result \<Rightarrow> bool) \<Rightarrow>
   ('op \<Rightarrow> stream_call) \<Rightarrow> ('op \<Rightarrow> bytes) \<Rightarrow> (nat \<times> bytes) list \<Rightarrow> nat \<Rightarrow> ('op, 'v) task \<Rightarrow> bool" where
  "piece_ok mover part fin call_of moved ps t p =
     (case p of
        Holding c op \<Rightarrow> call_of op = c \<and>
          (if mover c then ps \<noteq> [] \<and> last ps = (t, moved op) \<and> part c (moved op) else t \<notin> fst ` set ps)
      | Detached c op \<Rightarrow> call_of op = c \<and> \<not> mover c \<and> t \<notin> fst ` set ps
      | Done c v \<Rightarrow> (if mover c then \<exists>q. (t, q) \<in> set ps \<and> fin c q v else t \<notin> fst ` set ps)
      | Cancelled c \<Rightarrow> (\<forall>q. (t, q) \<in> set ps \<longrightarrow> mover c \<and> part c q)
      | _ \<Rightarrow> t \<notin> fst ` set ps)"

definition traffic_inv ::
  "(stream_call \<Rightarrow> bool) \<Rightarrow> (stream_call \<Rightarrow> bytes \<Rightarrow> bool) \<Rightarrow> (stream_call \<Rightarrow> bytes \<Rightarrow> 'v iroh_result \<Rightarrow> bool) \<Rightarrow>
   ('op \<Rightarrow> stream_call) \<Rightarrow> ('op \<Rightarrow> bytes) \<Rightarrow> ('s \<Rightarrow> bytes) \<Rightarrow> bytes \<Rightarrow> (nat \<times> bytes) list \<Rightarrow>
   ('m, 's, 'op, 'v) stream_sys \<Rightarrow> bool" where
  "traffic_inv mover part fin call_of moved log l0 ps s \<longleftrightarrow>
     log (sys_data s) = l0 @ concat (map snd ps) \<and> distinct (map fst ps) \<and>
     (\<forall>t. piece_ok mover part fin call_of moved ps t (sys_tasks s t))"

lemma traffic_inv_init: "stream_init M d s \<Longrightarrow> traffic_inv mover part fin call_of moved log (log d) [] s"
  by (simp add: stream_init_def traffic_inv_def piece_ok_def)

lemma traffic_invD:
  assumes "traffic_inv mover part fin call_of moved log l0 ps s" "sys_tasks s t = p"
  shows "piece_ok mover part fin call_of moved ps t p"
  using assms by (auto simp: traffic_inv_def)

lemma traffic_inv_mutex [simp]:
  "traffic_inv mover part fin call_of moved log l0 ps (set_mutex h m s) =
     traffic_inv mover part fin call_of moved log l0 ps s"
  "traffic_inv mover part fin call_of moved log l0 ps (release M h s) =
     traffic_inv mover part fin call_of moved log l0 ps s"
  by (simp_all add: traffic_inv_def)

text \<open>A task moves and the pieces stay.\<close>

lemma traffic_inv_task:
  assumes "traffic_inv mover part fin call_of moved log l0 ps s"
    and "piece_ok mover part fin call_of moved ps t p" "log d = log (sys_data s)"
  shows "traffic_inv mover part fin call_of moved log l0 ps (set_task t p (set_data d s))"
  using assms by (simp add: traffic_inv_def)

lemma traffic_inv_stay:
  assumes "traffic_inv mover part fin call_of moved log l0 ps s" "piece_ok mover part fin call_of moved ps t p"
  shows "traffic_inv mover part fin call_of moved log l0 ps (set_task t p s)"
  using assms by (simp add: traffic_inv_def)

text \<open>Pieces that differ at \<open>t\<close> only.\<close>

definition same_but :: "nat \<Rightarrow> (nat \<times> bytes) list \<Rightarrow> (nat \<times> bytes) list \<Rightarrow> bool" where
  "same_but t ps ps' \<longleftrightarrow> (\<forall>t' p. t' \<noteq> t \<longrightarrow> ((t', p) \<in> set ps \<longleftrightarrow> (t', p) \<in> set ps'))"

lemma same_but_fst:
  assumes "same_but t ps ps'" "t' \<noteq> t"
  shows "t' \<in> fst ` set ps \<longleftrightarrow> t' \<in> fst ` set ps'"
  using assms by (force simp: same_but_def)

section \<open>The interface\<close>

text \<open>
  A half \<open>h\<close> and the calls that move bytes through it: they use that half, keep their
  guard to the end and cannot fail before taking it.
\<close>

locale half_traffic =
  fixes h :: half
    and mover :: "stream_call \<Rightarrow> bool"
    and part :: "stream_call \<Rightarrow> bytes \<Rightarrow> bool"
    and fin :: "stream_call \<Rightarrow> bytes \<Rightarrow> 'v iroh_result \<Rightarrow> bool"
  assumes mover_half: "mover c \<Longrightarrow> call_half c = h"
    and mover_guarded: "mover c \<Longrightarrow> \<not> guard_dropped_early c"
    and mover_late: "mover c \<Longrightarrow> c \<noteq> Reset code \<and> c \<noteq> Stop code"
    and part_Nil: "mover c \<Longrightarrow> part c []"
begin

lemma piece_ok_other:
  assumes same: "same_but t ps ps'" and t': "t' \<noteq> t"
    and ok: "piece_ok mover part fin call_of moved ps t' p" and out: "\<not> in_section h p"
  shows "piece_ok mover part fin call_of moved ps' t' p"
proof -
  have mem: "(t', q) \<in> set ps' \<longleftrightarrow> (t', q) \<in> set ps" for q using same t' by (simp add: same_but_def)
  have "\<not> mover c" if "p = Holding c op" for c op using out that mover_half by auto
  with ok same_but_fst [OF same t'] mem show ?thesis
    by (cases p) (simp_all add: piece_ok_def split: if_splits)
qed

lemma traffic_inv_write:
  assumes inv: "traffic_inv mover part fin call_of moved log l0 ps s"
    and same: "same_but t ps ps'" and dist: "distinct (map fst ps')"
    and others: "\<And>t'. t' \<noteq> t \<Longrightarrow> \<not> in_section h (sys_tasks s t')"
    and log: "log d = l0 @ concat (map snd ps')" and ok: "piece_ok mover part fin call_of moved ps' t p"
  shows "traffic_inv mover part fin call_of moved log l0 ps' (set_task t p (set_data d s))"
proof -
  have "piece_ok mover part fin call_of moved ps' t' (sys_tasks s t')" if "t' \<noteq> t" for t'
    using piece_ok_other [OF same that traffic_invD [OF inv HOL.refl] others [OF that]] .
  with dist log ok show ?thesis by (simp add: traffic_inv_def)
qed

text \<open>A mover opens its piece when it gets the guard.\<close>

lemma traffic_inv_open:
  assumes W: "traffic_laws L mover part fin call_of moved log"
    and inv: "traffic_inv mover part fin call_of moved log l0 ps s"
    and t: "sys_tasks s t = Waiting c" and c: "mover c" and free: "\<And>t'. \<not> in_section h (sys_tasks s t')"
  shows "traffic_inv mover part fin call_of moved log l0 (ps @ [(t, [])]) (set_task t (Holding c (op_start L c)) s)"
proof -
  have new: "t \<notin> fst ` set ps" using traffic_invD [OF inv t] by (simp add: piece_ok_def)
  have "traffic_inv mover part fin call_of moved log l0 (ps @ [(t, [])])
      (set_task t (Holding c (op_start L c)) (set_data (sys_data s) s))"
  proof (rule traffic_inv_write [OF inv])
    show "same_but t ps (ps @ [(t, [])])" by (simp add: same_but_def)
    show "distinct (map fst (ps @ [(t, [])]))" using inv new by (simp add: traffic_inv_def)
    show "log (sys_data s) = l0 @ concat (map snd (ps @ [(t, [])]))" using inv by (simp add: traffic_inv_def)
    show "piece_ok mover part fin call_of moved (ps @ [(t, [])]) t (Holding c (op_start L c))"
      using c part_Nil by (simp add: piece_ok_def traffic_lawsD(1,2) [OF W])
  qed (simp add: free)
  then show ?thesis by (simp add: set_data_def)
qed

text \<open>It extends its piece by polling.\<close>

lemma traffic_inv_extend:
  assumes inv: "traffic_inv mover part fin call_of moved log l0 ps s" and guard: "guard_inv M s"
    and t: "sys_tasks s t = Holding c op" and c: "mover c" and d: "log d = log (sys_data s) @ g"
    and p: "p = Holding c op' \<and> call_of op' = c \<and> moved op' = moved op @ g \<and> part c (moved op') \<or>
      p = Done c v \<and> fin c (moved op @ g) v"
  shows "\<exists>ps'. traffic_inv mover part fin call_of moved log l0 ps' (set_task t p (set_data d s))"
proof -
  obtain ps0 where ps: "ps = ps0 @ [(t, moved op)]"
    using traffic_invD [OF inv t] c by (cases ps rule: rev_cases) (auto simp: piece_ok_def)
  let ?ps = "ps0 @ [(t, moved op @ g)]"
  have "traffic_inv mover part fin call_of moved log l0 ?ps (set_task t p (set_data d s))"
  proof (rule traffic_inv_write [OF inv])
    show "same_but t ps ?ps" by (auto simp: same_but_def ps)
    show "distinct (map fst ?ps)" using inv by (simp add: traffic_inv_def ps)
    show "\<not> in_section h (sys_tasks s t')" if "t' \<noteq> t" for t'
      using only_in_section [OF guard t that] mover_half [OF c] by simp
    show "log d = l0 @ concat (map snd ?ps)" using inv d by (simp add: traffic_inv_def ps)
    show "piece_ok mover part fin call_of moved ?ps t p" using p c by (auto simp: piece_ok_def)
  qed
  then show ?thesis ..
qed

lemma traffic_inv_poll:
  assumes W: "traffic_laws L mover part fin call_of moved log"
    and inv: "traffic_inv mover part fin call_of moved log l0 ps s" and guard: "guard_inv M s"
    and t: "sys_tasks s t = Holding c op"
  shows "op_poll L op (sys_data s) = (Inl op', d) \<Longrightarrow>
      \<exists>ps'. traffic_inv mover part fin call_of moved log l0 ps' (set_task t (Holding c op') (set_data d s))"
    and "op_poll L op (sys_data s) = (Inr v, d) \<Longrightarrow>
      \<exists>ps'. traffic_inv mover part fin call_of moved log l0 ps' (set_task t (Done c v) (set_data d s))"
proof -
  have here: "piece_ok mover part fin call_of moved ps t (Holding c op)" using traffic_invD [OF inv t] .
  then have op: "call_of op = c" by (simp add: piece_ok_def)
  show "\<exists>ps'. traffic_inv mover part fin call_of moved log l0 ps' (set_task t (Holding c op') (set_data d s))"
    if poll: "op_poll L op (sys_data s) = (Inl op', d)"
  proof (cases "mover c")
    case True
    then have "part c (moved op)" using here by (simp add: piece_ok_def)
    with traffic_lawsD(4) [OF W poll] op True obtain g where
      "log d = log (sys_data s) @ g" "moved op' = moved op @ g" "part c (moved op')" by blast
    then show ?thesis
      using traffic_inv_extend [OF inv guard t True] traffic_lawsD(3) [OF W poll] op by blast
  next
    case False
    with here op traffic_lawsD(3,6) [OF W poll] show ?thesis
      by (intro exI [of _ ps] traffic_inv_task [OF inv]) (simp_all add: piece_ok_def)
  qed
  show "\<exists>ps'. traffic_inv mover part fin call_of moved log l0 ps' (set_task t (Done c v) (set_data d s))"
    if poll: "op_poll L op (sys_data s) = (Inr v, d)"
  proof (cases "mover c")
    case True
    then have "part c (moved op)" using here by (simp add: piece_ok_def)
    with traffic_lawsD(5) [OF W poll] op True obtain g where
      "log d = log (sys_data s) @ g" "fin c (moved op @ g) v" by blast
    then show ?thesis using traffic_inv_extend [OF inv guard t True] by blast
  next
    case False
    with here op traffic_lawsD(6) [OF W poll] show ?thesis
      by (intro exI [of _ ps] traffic_inv_task [OF inv]) (simp_all add: piece_ok_def)
  qed
qed

text \<open>Giving a call up keeps what it moved.\<close>

lemma piece_ok_cancelled:
  assumes "distinct (map fst ps)"
    and "piece_ok mover part fin call_of moved ps t (Waiting c) \<or>
      piece_ok mover part fin call_of moved ps t (Holding c op) \<or>
      piece_ok mover part fin call_of moved ps t (Detached c op)"
  shows "piece_ok mover part fin call_of moved ps t (Cancelled c)"
proof (cases "t \<in> fst ` set ps")
  case True
  then have hold: "mover c" "part c (moved op)" "ps \<noteq> []" "last ps = (t, moved op)"
    using assms(2) by (auto simp: piece_ok_def split: if_splits)
  then have "(t, moved op) \<in> set ps" using last_in_set by metis
  then have "q = moved op" if "(t, q) \<in> set ps" for q
    using that assms(1) by (metis eq_key_imp_eq_value)
  with hold show ?thesis by (auto simp: piece_ok_def)
next
  case False
  then have "(t, q) \<notin> set ps" for q by force
  then show ?thesis by (simp add: piece_ok_def)
qed

lemma traffic_inv_cancel:
  assumes inv: "traffic_inv mover part fin call_of moved log l0 ps s"
    and "sys_tasks s t = Waiting c \<or> sys_tasks s t = Holding c op \<or> sys_tasks s t = Detached c op"
  shows "traffic_inv mover part fin call_of moved log l0 ps (set_task t (Cancelled c) s)"
proof -
  have "distinct (map fst ps)" using inv by (simp add: traffic_inv_def)
  then have "piece_ok mover part fin call_of moved ps t (Cancelled c)"
    using assms(2) traffic_invD [OF inv] piece_ok_cancelled by metis
  with inv show ?thesis by (rule traffic_inv_stay)
qed

lemma traffic_inv_acquire:
  assumes M: "mutex_laws M" and W: "traffic_laws L mover part fin call_of moved log"
    and guard: "guard_inv M s" and inv: "traffic_inv mover part fin call_of moved log l0 ps s"
    and t: "sys_tasks s t = Waiting c" and m: "mx_acquire M (sys_mutex s (call_half c)) t = Some m"
  shows "\<exists>ps'. traffic_inv mover part fin call_of moved log l0 ps'
     (set_task t (Holding c (op_start L c)) (set_mutex (call_half c) m s))"
proof (cases "mover c")
  case True
  have "\<not> in_section h (sys_tasks s t')" for t'
    using none_in_section [OF M guard m] mover_half [OF True] by simp
  then show ?thesis
    using traffic_inv_open [OF W, of l0 ps "set_mutex (call_half c) m s" t c] inv t True by auto
next
  case False
  then show ?thesis
    using inv traffic_invD [OF inv t]
    by (intro exI [of _ ps] traffic_inv_stay) (simp_all add: piece_ok_def traffic_lawsD(1) [OF W])
qed

text \<open>A call that has given its guard back is not a mover.\<close>

lemma traffic_inv_detached:
  assumes W: "traffic_laws L mover part fin call_of moved log"
    and inv: "traffic_inv mover part fin call_of moved log l0 ps s" and t: "sys_tasks s t = Detached c op"
    and poll: "op_poll L op (sys_data s) = (r, d)"
    and p: "p = (case r of Inl op' \<Rightarrow> Detached c op' | Inr v \<Rightarrow> Done c v)"
  shows "\<exists>ps'. traffic_inv mover part fin call_of moved log l0 ps' (set_task t p (set_data d s))"
  using traffic_invD [OF inv t] traffic_lawsD(6) [OF W poll] p
    traffic_lawsD(3) [OF W, of op "sys_data s" _ d] poll
  by (intro exI [of _ ps] traffic_inv_task [OF inv]) (cases r; simp add: piece_ok_def)+

lemma traffic_inv_step:
  assumes M: "mutex_laws M" and W: "traffic_laws L mover part fin call_of moved log"
    and "stream_step S M L s s'" "guard_inv M s" "traffic_inv mover part fin call_of moved log l0 ps s"
  shows "\<exists>ps'. traffic_inv mover part fin call_of moved log l0 ps' s'"
  using assms(3,4,5)
proof (induction rule: stream_step.induct)
  case (call s t c)
  then show ?case
    using traffic_invD [OF call(4), of t] by (intro exI [of _ ps] traffic_inv_stay) (simp_all add: piece_ok_def)
next
  case (early s t c e)
  have "\<not> mover c" using early(2) mover_late [of c] by (auto simp: early_error_def split: stream_call.splits)
  then show ?case
    using early traffic_invD [OF early(4), of t]
    by (intro exI [of _ ps] traffic_inv_stay) (simp_all add: piece_ok_def)
next
  case (enqueue s t c)
  then show ?case
    using traffic_invD [OF enqueue(4), of t] by (intro exI [of _ ps] traffic_inv_stay) (simp_all add: piece_ok_def)
next
  case (acquire s t c m)
  then show ?case by (intro traffic_inv_acquire [OF M W])
next
  case (poll_pending s t c op op' d)
  then show ?case using traffic_inv_poll(1) [OF W poll_pending(5,4,1,3)] by simp
next
  case (poll_ready s t c op r d)
  then show ?case using traffic_inv_poll(2) [OF W poll_ready(5,4,1,3)] by simp
next
  case (detach s t c op)
  then have "\<not> mover c" using mover_guarded by blast
  then have "piece_ok mover part fin call_of moved ps t (Detached c op)"
    using traffic_invD [OF detach(4,1)] by (simp add: piece_ok_def)
  then show ?case using traffic_inv_stay [OF detach(4)] by auto
next
  case (network s d)
  then show ?case using traffic_lawsD(7) [OF W network(1)] by (auto simp: traffic_inv_def)
qed (auto intro!: traffic_inv_detached [OF W] dest: traffic_inv_cancel)

lemma traffic_inv_reach:
  assumes "mutex_laws M" "traffic_laws L mover part fin call_of moved log" "stream_reach S M L d s"
  shows "\<exists>ps. traffic_inv mover part fin call_of moved log (log d) ps s"
  using assms(3)
proof induction
  case (init s)
  then show ?case by (intro exI [of _ "[]"] traffic_inv_init)
next
  case (step s s')
  then obtain ps where "traffic_inv mover part fin call_of moved log (log d) ps s" by blast
  with traffic_inv_step [OF assms(1,2) step.hyps(2) guard_inv_reach [OF assms(1) step.hyps(1)]] show ?case .
qed

text \<open>What the pieces mean for the calls, in every reachable state.\<close>

lemma traffic_pieces:
  assumes "mutex_laws M" "traffic_laws L mover part fin call_of moved log" "stream_reach S M L d s"
  shows "\<exists>ps. log (sys_data s) = log d @ concat (map snd ps) \<and> distinct (map fst ps) \<and>
     (\<forall>t c v. sys_tasks s t = Done c v \<and> mover c \<longrightarrow> (\<exists>q. (t, q) \<in> set ps \<and> fin c q v)) \<and>
     (\<forall>t q. (t, q) \<in> set ps \<longrightarrow> (\<exists>c. mover c \<and>
       ((\<exists>op. sys_tasks s t = Holding c op \<and> part c q) \<or> sys_tasks s t = Cancelled c \<and> part c q \<or>
        (\<exists>v. sys_tasks s t = Done c v \<and> fin c q v))))"
proof -
  obtain ps where inv: "traffic_inv mover part fin call_of moved log (log d) ps s"
    using traffic_inv_reach [OF assms] by blast
  have dist: "distinct (map fst ps)" using inv by (simp add: traffic_inv_def)
  have done_: "\<exists>q. (t, q) \<in> set ps \<and> fin c q v" if "sys_tasks s t = Done c v" "mover c" for t c v
    using traffic_invD [OF inv that(1)] that(2) by (simp add: piece_ok_def)
  have "\<exists>c. mover c \<and> ((\<exists>op. sys_tasks s t = Holding c op \<and> part c q) \<or> sys_tasks s t = Cancelled c \<and> part c q \<or>
      (\<exists>v. sys_tasks s t = Done c v \<and> fin c q v))" if q: "(t, q) \<in> set ps" for t q
  proof -
    have in_ps: "t \<in> fst ` set ps" using q by force
    have only: "q' = q" if "(t, q') \<in> set ps" for q' using that q dist by (metis eq_key_imp_eq_value)
    have ok: "piece_ok mover part fin call_of moved ps t (sys_tasks s t)" using traffic_invD [OF inv HOL.refl] .
    show ?thesis
    proof (cases "sys_tasks s t")
      case (Holding c op)
      with ok in_ps have "mover c" "part c (moved op)" "ps \<noteq> []" "last ps = (t, moved op)"
        by (auto simp: piece_ok_def split: if_splits)
      moreover from this have "moved op = q" using last_in_set only by metis
      ultimately show ?thesis using Holding by blast
    next
      case (Done c v)
      with ok in_ps have "mover c" "\<exists>q'. (t, q') \<in> set ps \<and> fin c q' v"
        by (auto simp: piece_ok_def split: if_splits)
      then show ?thesis using Done only by blast
    qed (use ok in_ps q in \<open>auto simp: piece_ok_def\<close>)
  qed
  moreover have "log (sys_data s) = log d @ concat (map snd ps)" using inv by (simp add: traffic_inv_def)
  ultimately show ?thesis using dist done_ by blast
qed

end

section \<open>The two halves\<close>

text \<open>The values the methods return, in one type.\<close>

datatype stream_val =
  VUnit | VChunk "bytes option" | VBytes bytes | VPriority i32 | VId u64 | VCode "u64 option"

text \<open>
  \<^verbatim>\<open>SendStream::write_all\<close> hands the data over in order and succeeds once all of it is
  accepted; given up or failed it has handed over a prefix.
\<close>

fun sends_bytes :: "stream_call \<Rightarrow> bool" where
  "sends_bytes (SendBytes data) \<longleftrightarrow> True"
| "sends_bytes _ \<longleftrightarrow> False"

fun part_sent :: "stream_call \<Rightarrow> bytes \<Rightarrow> bool" where
  "part_sent (SendBytes data) m \<longleftrightarrow> prefix m data"
| "part_sent _ m \<longleftrightarrow> False"

fun all_sent :: "stream_call \<Rightarrow> bytes \<Rightarrow> 'v iroh_result \<Rightarrow> bool" where
  "all_sent (SendBytes data) m (Inr _) \<longleftrightarrow> m = data"
| "all_sent c m (Inl _) \<longleftrightarrow> part_sent c m"
| "all_sent _ m (Inr _) \<longleftrightarrow> False"

text \<open>
  \<^verbatim>\<open>RecvStream::read\<close> takes what it returns when it is ready and nothing before (it is
  documented as cancel safe); \<^verbatim>\<open>read_exact\<close> and \<^verbatim>\<open>read_to_end\<close> take the bytes as they
  arrive and are documented as not cancel safe.
\<close>

fun reads_bytes :: "stream_call \<Rightarrow> bool" where
  "reads_bytes (Recv n) \<longleftrightarrow> True"
| "reads_bytes (ReadExact n) \<longleftrightarrow> True"
| "reads_bytes (ReadToEnd n) \<longleftrightarrow> True"
| "reads_bytes _ \<longleftrightarrow> False"

fun part_read :: "stream_call \<Rightarrow> bytes \<Rightarrow> bool" where
  "part_read (Recv n) m \<longleftrightarrow> m = []"
| "part_read (ReadExact n) m \<longleftrightarrow> length m \<le> unat n"
| "part_read (ReadToEnd n) m \<longleftrightarrow> True"
| "part_read _ m \<longleftrightarrow> False"

fun all_read :: "stream_call \<Rightarrow> bytes \<Rightarrow> stream_val iroh_result \<Rightarrow> bool" where
  "all_read (Recv n) m (Inr (VChunk (Some bs))) \<longleftrightarrow> m = bs \<and> length bs \<le> unat n"
| "all_read (Recv n) m (Inr (VChunk None)) \<longleftrightarrow> m = []"
| "all_read (ReadExact n) m (Inr (VBytes bs)) \<longleftrightarrow> m = bs \<and> length bs = unat n"
| "all_read (ReadToEnd n) m (Inr (VBytes bs)) \<longleftrightarrow> m = bs \<and> length bs \<le> unat n"
| "all_read c m (Inl _) \<longleftrightarrow> part_read c m"
| "all_read _ m (Inr _) \<longleftrightarrow> False"

interpretation send_traffic: half_traffic SendHalf sends_bytes part_sent all_sent
proof (unfold_locales, goal_cases)
  case (1 c) then show ?case by (cases c) auto
next
  case (2 c) then show ?case by (cases c) (auto simp: guard_dropped_early_def)
next
  case (3 c code) then show ?case by (cases c) auto
next
  case (4 c) then show ?case by (cases c) auto
qed

interpretation recv_traffic: half_traffic RecvHalf reads_bytes part_read all_read
proof (unfold_locales, goal_cases)
  case (1 c) then show ?case by (cases c) auto
next
  case (2 c) then show ?case by (cases c) (auto simp: guard_dropped_early_def)
next
  case (3 c code) then show ?case by (cases c) auto
next
  case (4 c) then show ?case by (cases c) auto
qed

end
