(* ===== verification/Stream_Runs.thy ===== *)
theory Stream_Runs
  imports Stream_Traffic
begin

text \<open>
  Runs of the concurrent stream system: the calls always can finish, and with the
  methods of stream.rs as operations every run is explained by executing the same calls
  one after the other (\<open>Stream\<close>), in the order in which they completed.
\<close>

section \<open>Progress\<close>












text \<open>The call a task is busy with.\<close>

fun busy_with :: "('op, 'v) task \<Rightarrow> stream_call option" where
  "busy_with (Called c) = Some c"
| "busy_with (Waiting c) = Some c"
| "busy_with (Holding c _) = Some c"
| "busy_with (Detached c _) = Some c"
| "busy_with _ = None"


section \<open>The methods of stream.rs as operations\<close>



fun IrohSendStream_run ::
  "('w, 'conn, 'snd, 'rcv, 'vi, 'e, 'z) stream_api_scheme \<Rightarrow> ('conn, 'snd) IrohSendStream \<Rightarrow>
   stream_call \<Rightarrow> ('w, stream_val iroh_result) async" where
  "IrohSendStream_run S self (SendBytes data) = await_map (IrohSendStream_send_bytes S self data) (map_ok (\<lambda>_. VUnit))"
| "IrohSendStream_run S self Finish = await_map (IrohSendStream_finish S self) (map_ok (\<lambda>_. VUnit))"
| "IrohSendStream_run S self (Reset code) = await_map (\<lambda>w. Some (IrohSendStream_reset S self code w)) (map_ok (\<lambda>_. VUnit))"
| "IrohSendStream_run S self (SetPriority p) = await_map (\<lambda>w. Some (IrohSendStream_set_priority S self p w)) (map_ok (\<lambda>_. VUnit))"
| "IrohSendStream_run S self Priority = (\<lambda>w. Some (map_ok VPriority (IrohSendStream_priority S self w), w))"
| "IrohSendStream_run S self Stopped = await_map (IrohSendStream_stopped S self) (map_ok VCode)"
| "IrohSendStream_run S self SendId = ready (Inr (VId (IrohSendStream_id S self)))"
| "IrohSendStream_run S self _ = (\<lambda>w. None)"

fun IrohSendStream_offers :: "stream_call \<Rightarrow> bool" where
  "IrohSendStream_offers c \<longleftrightarrow> call_half c = SendHalf"

fun IrohRecvStream_run ::
  "('w, 'conn, 'snd, 'rcv, 'vi, 'e, 'z) stream_api_scheme \<Rightarrow> ('conn, 'rcv) IrohRecvStream \<Rightarrow>
   stream_call \<Rightarrow> ('w, stream_val iroh_result) async" where
  "IrohRecvStream_run S self (Recv n) = await_map (IrohRecvStream_recv S self n) (map_ok VChunk)"
| "IrohRecvStream_run S self (ReadExact n) = await_map (IrohRecvStream_read_exact S self n) (map_ok VBytes)"
| "IrohRecvStream_run S self (ReadToEnd n) = await_map (IrohRecvStream_read_to_end S self n) (map_ok VBytes)"
| "IrohRecvStream_run S self (Stop code) = await_map (\<lambda>w. Some (IrohRecvStream_stop S self code w)) (map_ok (\<lambda>_. VUnit))"
| "IrohRecvStream_run S self RecvId = ready (Inr (VId (IrohRecvStream_id S self)))"
| "IrohRecvStream_run S self _ = (\<lambda>w. None)"

fun IrohRecvStream_offers :: "stream_call \<Rightarrow> bool" where
  "IrohRecvStream_offers c \<longleftrightarrow> call_half c = RecvHalf"

text \<open>
  A sequential operation as a future: pending as long as the sequential model has no
  result in the current state, then ready with that result.
\<close>

definition seq_ops ::
  "(stream_call \<Rightarrow> bool) \<Rightarrow> (stream_call \<Rightarrow> ('w, 'v iroh_result) async) \<Rightarrow> ('w \<Rightarrow> 'w \<Rightarrow> bool) \<Rightarrow>
   ('w, stream_call, 'v) op_api" where
  "seq_ops offers run env =
     \<lparr>op_offers = offers, op_start = (\<lambda>c. c),
      op_poll = (\<lambda>c w. case run c w of None \<Rightarrow> (Inl c, w) | Some (r, w') \<Rightarrow> (Inr r, w')),
      op_env = env\<rparr>"

lemma seq_ops_simps [simp]:
  "op_offers (seq_ops offers run env) = offers"
  "op_start (seq_ops offers run env) c = c"
  "op_env (seq_ops offers run env) = env"
  "op_poll (seq_ops offers run env) c w = (Inl op', d) \<longleftrightarrow> run c w = None \<and> op' = c \<and> d = w"
  "op_poll (seq_ops offers run env) c w = (Inr r, d) \<longleftrightarrow> run c w = Some (r, d)"
  by (auto simp: seq_ops_def split: option.splits)

section \<open>Every run is a sequence of calls\<close>

text \<open>
  A log of completed calls and moves of the network, and its execution by the
  sequential model: every entry has the result the model computes there.
\<close>

datatype ('w, 'v) event = Ran nat stream_call "'v iroh_result" | Moved 'w

fun replay ::
  "(stream_call \<Rightarrow> ('w, 'v iroh_result) async) \<Rightarrow> ('w \<Rightarrow> 'w \<Rightarrow> bool) \<Rightarrow> ('w, 'v) event list \<Rightarrow> 'w \<Rightarrow> 'w \<Rightarrow> bool" where
  "replay run env [] w w' \<longleftrightarrow> w' = w"
| "replay run env (Ran t c r # es) w w' \<longleftrightarrow>
     (case run c w of None \<Rightarrow> False | Some (r1, w1) \<Rightarrow> r1 = r \<and> replay run env es w1 w')"
| "replay run env (Moved w1 # es) w w' \<longleftrightarrow> env w w1 \<and> replay run env es w1 w'"

lemma replay_append:
  "replay run env (es @ [e]) w w' \<longleftrightarrow> (\<exists>w1. replay run env es w w1 \<and> replay run env [e] w1 w')"
proof (induction es arbitrary: w)
  case (Cons x es)
  then show ?case by (cases x) (auto split: option.splits)
qed simp

fun ran :: "('w, 'v) event list \<Rightarrow> nat list" where
  "ran [] = []"
| "ran (Ran t c r # es) = t # ran es"
| "ran (Moved w # es) = ran es"

lemma ran_append [simp]: "ran (es @ es') = ran es @ ran es'"
  by (induction es rule: ran.induct) auto

lemma set_ran: "t \<in> set (ran es) \<longleftrightarrow> (\<exists>c r. Ran t c r \<in> set es)"
  by (induction es rule: ran.induct) auto

text \<open>The log has exactly the finished calls, once each; a call under way is one the object has.\<close>

definition task_log ::
  "(stream_call \<Rightarrow> bool) \<Rightarrow> ('w, 'v) event list \<Rightarrow> nat \<Rightarrow> (stream_call, 'v) task \<Rightarrow> bool" where
  "task_log offers es t p \<longleftrightarrow>
     (\<forall>c r. Ran t c r \<in> set es \<longleftrightarrow> p = Done c r) \<and>
     (\<forall>c. busy_with p = Some c \<longrightarrow> offers c) \<and>
     (\<forall>c op. p = Holding c op \<or> p = Detached c op \<longrightarrow> op = c)"

definition log_inv ::
  "(stream_call \<Rightarrow> bool) \<Rightarrow> (stream_call \<Rightarrow> ('w, 'v iroh_result) async) \<Rightarrow> ('w \<Rightarrow> 'w \<Rightarrow> bool) \<Rightarrow> 'w \<Rightarrow>
   ('w, 'v) event list \<Rightarrow> ('m, 'w, stream_call, 'v) stream_sys \<Rightarrow> bool" where
  "log_inv offers run env w0 es s \<longleftrightarrow>
     replay run env es w0 (sys_data s) \<and> distinct (ran es) \<and>
     (\<forall>t. task_log offers es t (sys_tasks s t))"

lemma log_inv_mutex [simp]:
  "log_inv offers run env w0 es (set_mutex h m s) = log_inv offers run env w0 es s"
  "log_inv offers run env w0 es (release M h s) = log_inv offers run env w0 es s"
  by (simp_all add: log_inv_def)

lemma log_inv_init: "stream_init M d s \<Longrightarrow> log_inv offers run env d [] s"
  by (simp add: stream_init_def log_inv_def task_log_def)

lemma log_inv_stay:
  assumes "log_inv offers run env w0 es s" "task_log offers es t p"
  shows "log_inv offers run env w0 es (set_task t p s)"
  using assms by (simp add: log_inv_def)

lemma log_inv_ran:
  assumes inv: "log_inv offers run env w0 es s" and run: "run c (sys_data s) = Some (r, d)"
    and t: "busy_with (sys_tasks s t) \<noteq> None"
  shows "log_inv offers run env w0 (es @ [Ran t c r]) (set_task t (Done c r) (set_data d s))"
proof -
  have new: "Ran t c' r' \<notin> set es" for c' r'
    using inv t by (auto simp: log_inv_def task_log_def)
  have "task_log offers (es @ [Ran t c r]) t' (((sys_tasks s)(t := Done c r)) t')" for t'
  proof (cases "t' = t")
    case True
    with new show ?thesis by (auto simp: task_log_def)
  next
    case False
    have "task_log offers es t' (sys_tasks s t')" using inv by (simp add: log_inv_def)
    with False show ?thesis by (auto simp: task_log_def)
  qed
  with new inv run show ?thesis by (auto simp: log_inv_def replay_append set_ran)
qed

lemma log_inv_moved:
  assumes inv: "log_inv offers run env w0 es s" and "env (sys_data s) d"
  shows "log_inv offers run env w0 (es @ [Moved d]) (set_data d s)"
  using assms by (auto simp: log_inv_def replay_append task_log_def)

lemma log_invD:
  assumes "log_inv offers run env w0 es s" "sys_tasks s t = p"
  shows "task_log offers es t p"
  using assms by (auto simp: log_inv_def)

text \<open>A call that moves on without a result keeps the log.\<close>

lemma log_inv_move:
  assumes inv: "log_inv offers run env w0 es s" and t: "busy_with (sys_tasks s t) = Some c"
    and p: "p = Waiting c \<or> p = Holding c c \<or> p = Detached c c \<or> p = Cancelled c"
  shows "\<exists>es'. log_inv offers run env w0 es' (set_task t p s)"
proof -
  have "task_log offers es t (sys_tasks s t)" using log_invD [OF inv refl] .
  moreover from t have "sys_tasks s t \<noteq> Done c' r" for c' r by auto
  ultimately have "task_log offers es t p" using t p by (auto simp: task_log_def)
  with inv show ?thesis by (auto intro: log_inv_stay)
qed

lemma log_inv_op:
  assumes "log_inv offers run env w0 es s"
  shows "sys_tasks s t = Holding c op \<Longrightarrow> op = c" "sys_tasks s t = Detached c op \<Longrightarrow> op = c"
  using log_invD [OF assms refl, of t] by (auto simp: task_log_def)

text \<open>
  The interface: an object whose methods \<open>run\<close> report the early error of stream.rs
  before they touch the stream.  Each of the three objects provides it.
\<close>

locale stream_object =
  fixes S :: "('w, 'conn, 'snd, 'rcv, 'vi, 'e, 'z) stream_api_scheme"
    and offers :: "stream_call \<Rightarrow> bool"
    and run :: "stream_call \<Rightarrow> ('w, 'v iroh_result) async"
  assumes early_runs: "offers c \<Longrightarrow> early_error S c = Some e \<Longrightarrow> run c w = Some (Inl e, w)"
begin

lemma log_inv_step:
  assumes "stream_step S M (seq_ops offers run env) s s'" "log_inv offers run env w0 es s"
  shows "\<exists>es'. log_inv offers run env w0 es' s'"
  using assms
proof (induction rule: stream_step.induct)
  case (call s t c)
  have "task_log offers es t Idle" using call log_invD by metis
  with call show ?case by (intro exI [of _ es] log_inv_stay) (auto simp: task_log_def)
next
  case (early s t c e)
  have "task_log offers es t (Called c)" using early log_invD by metis
  then have "run c (sys_data s) = Some (Inl e, sys_data s)"
    using early_runs early(2) by (auto simp: task_log_def)
  from log_inv_ran [OF early(3) this, of t] early(1)
  have "log_inv offers run env w0 (es @ [Ran t c (Inl e)]) (set_task t (Done c (Inl e)) s)"
    by (simp add: set_data_def)
  then show ?case ..
next
  case (poll_ready s t c op r d)
  with log_inv_op(1) have "run c (sys_data s) = Some (r, d)" by fastforce
  from log_inv_ran [OF poll_ready(4) this, of t] poll_ready(1)
  have "log_inv offers run env w0 (es @ [Ran t c r]) (set_task t (Done c r) (set_data d s))" by simp
  then show ?case by auto
next
  case (detached_ready s t c op r d)
  with log_inv_op(2) have "run c (sys_data s) = Some (r, d)" by fastforce
  from log_inv_ran [OF detached_ready(3) this, of t] detached_ready(1)
  have "log_inv offers run env w0 (es @ [Ran t c r]) (set_task t (Done c r) (set_data d s))" by simp
  then show ?case by auto
next
  case (network s d)
  have "log_inv offers run env w0 (es @ [Moved d]) (set_data d s)"
    using network by (intro log_inv_moved) simp_all
  then show ?case ..
next
  case (acquire s t c m)
  then show ?case using log_inv_move [of offers run env w0 es "set_mutex (call_half c) m s" t c] by simp
qed (auto simp: set_data_def dest: log_inv_op intro: log_inv_move)

text \<open>Any interleaving is explained by a log of the finished calls.\<close>

lemma linearizable:
  assumes "stream_reach S M (seq_ops offers run env) w0 s"
  shows "\<exists>es. replay run env es w0 (sys_data s) \<and> distinct (ran es) \<and>
     (\<forall>t c r. Ran t c r \<in> set es \<longleftrightarrow> sys_tasks s t = Done c r)"
proof -
  from assms have "\<exists>es. log_inv offers run env w0 es s"
  proof induction
    case (init s)
    then show ?case by (intro exI [of _ "[]"] log_inv_init)
  next
    case (step s s')
    then obtain es where "log_inv offers run env w0 es s" by blast
    with log_inv_step [OF step.hyps(2)] show ?case .
  qed
  then show ?thesis by (auto simp: log_inv_def task_log_def)
qed

end

lemma early_error_cases:
  assumes "early_error S c = Some e"
  obtains code where "c = Reset code" "map_err (IrohError_msg (st_err S)) (varint_from_u64 S code) = Inl e"
  | code where "c = Stop code" "map_err (IrohError_msg (st_err S)) (varint_from_u64 S code) = Inl e"
  using assms by (auto simp: early_error_def split: stream_call.splits sum.splits)


interpretation send_object: stream_object S IrohSendStream_offers "IrohSendStream_run S self" for S self
  by unfold_locales (erule early_error_cases; simp add: IrohSendStream_reset_def)

interpretation recv_object: stream_object S IrohRecvStream_offers "IrohRecvStream_run S self" for S self
  by unfold_locales (erule early_error_cases; simp add: IrohRecvStream_stop_def)

section \<open>An executable scheduler\<close>

text \<open>The steps of one task are determined by its state, so a schedule is a list of choices.\<close>

datatype action = Call nat stream_call | Advance nat | Cancel nat

definition advance ::
  "('w, 'conn, 'snd, 'rcv, 'vi, 'e, 'z) stream_api_scheme \<Rightarrow> 'm mutex_api \<Rightarrow> ('s, 'op, 'v) op_api \<Rightarrow>
   nat \<Rightarrow> ('m, 's, 'op, 'v) stream_sys \<Rightarrow> ('m, 's, 'op, 'v) stream_sys option" where
  "advance S M L t s =
     (case sys_tasks s t of
        Called c \<Rightarrow>
          Some (set_task t (case early_error S c of Some e \<Rightarrow> Done c (Inl e) | None \<Rightarrow> Waiting c) s)
      | Waiting c \<Rightarrow>
          map_option (\<lambda>m. set_task t (Holding c (op_start L c)) (set_mutex (call_half c) m s))
            (mx_acquire M (sys_mutex s (call_half c)) t)
      | Holding c op \<Rightarrow>
          Some (if guard_dropped_early c then release M (call_half c) (set_task t (Detached c op) s)
                else case op_poll L op (sys_data s) of
                  (Inl op', d) \<Rightarrow> set_task t (Holding c op') (set_data d s)
                | (Inr r, d) \<Rightarrow> release M (call_half c) (set_task t (Done c r) (set_data d s)))
      | Detached c op \<Rightarrow>
          Some (case op_poll L op (sys_data s) of
                  (Inl op', d) \<Rightarrow> set_task t (Detached c op') (set_data d s)
                | (Inr r, d) \<Rightarrow> set_task t (Done c r) (set_data d s))
      | _ \<Rightarrow> None)"

fun cancel_task ::
  "'m mutex_api \<Rightarrow> nat \<Rightarrow> ('op, 'v) task \<Rightarrow> ('m, 's, 'op, 'v) stream_sys \<Rightarrow> ('m, 's, 'op, 'v) stream_sys option" where
  "cancel_task M t (Waiting c) s = (if cancellable c then Some (set_task t (Cancelled c) s) else None)"
| "cancel_task M t (Holding c op) s =
     (if cancellable c then Some (release M (call_half c) (set_task t (Cancelled c) s)) else None)"
| "cancel_task M t (Detached c op) s = Some (set_task t (Cancelled c) s)"
| "cancel_task M t _ s = None"

fun act ::
  "('w, 'conn, 'snd, 'rcv, 'vi, 'e, 'z) stream_api_scheme \<Rightarrow> 'm mutex_api \<Rightarrow> ('s, 'op, 'v) op_api \<Rightarrow>
   action \<Rightarrow> ('m, 's, 'op, 'v) stream_sys \<Rightarrow> ('m, 's, 'op, 'v) stream_sys option" where
  "act S M L (Call t c) s = (if sys_tasks s t = Idle \<and> op_offers L c then Some (set_task t (Called c) s) else None)"
| "act S M L (Advance t) s = advance S M L t s"
| "act S M L (Cancel t) s = cancel_task M t (sys_tasks s t) s"

lemma act_step: "act S M L a s = Some s' \<Longrightarrow> stream_step S M L s s'"
proof (cases a)
  case (Advance t)
  assume "act S M L a s = Some s'"
  with Advance show ?thesis
    by (cases "sys_tasks s t")
      (auto simp: advance_def intro: stream_step.intros split: option.splits sum.splits prod.splits if_splits)
next
  case (Cancel t)
  assume "act S M L a s = Some s'"
  with Cancel show ?thesis
    by (cases "sys_tasks s t") (auto intro: stream_step.intros split: if_splits)
qed (auto intro: stream_step.intros split: if_splits)

text \<open>Apart from moves of the network, the scheduler makes every step of the system.\<close>

lemma act_ways:
  assumes "act S M L (Call t c) s = Some s' \<or> act S M L (Advance t) s = Some s' \<or> act S M L (Cancel t) s = Some s'"
  shows "\<exists>a. act S M L a s = Some s'"
  using assms by blast

lemma step_act:
  assumes "stream_step S M L s s'"
  shows "(\<exists>a. act S M L a s = Some s') \<or> (\<exists>d. op_env L (sys_data s) d \<and> s' = set_data d s)"
  using assms
proof (cases rule: stream_step.cases)
  case (network d)
  then show ?thesis by blast
next
  case (call t c)
  then show ?thesis by (intro disjI1 [OF act_ways [of _ _ _ t c]]) (simp)
next
  case (cancel_waiting t c)
  then show ?thesis by (intro disjI1 [OF act_ways [of _ _ _ t c]]) (simp)
next
  case (cancel_holding t c op)
  then show ?thesis by (intro disjI1 [OF act_ways [of _ _ _ t c]]) (simp)
next
  case (cancel_detached t c op)
  then show ?thesis by (intro disjI1 [OF act_ways [of _ _ _ t c]]) (simp)
next
  case (early t c e)
  then show ?thesis by (intro disjI1 [OF act_ways [of _ _ _ t c]]) (simp add: advance_def)
next
  case (enqueue t c)
  then show ?thesis by (intro disjI1 [OF act_ways [of _ _ _ t c]]) (simp add: advance_def)
next
  case (acquire t c m)
  then show ?thesis by (intro disjI1 [OF act_ways [of _ _ _ t c]]) (simp add: advance_def)
next
  case (poll_pending t c op op' d)
  then show ?thesis by (intro disjI1 [OF act_ways [of _ _ _ t c]]) (simp add: advance_def)
next
  case (poll_ready t c op r d)
  then show ?thesis by (intro disjI1 [OF act_ways [of _ _ _ t c]]) (simp add: advance_def)
next
  case (detach t c op)
  then show ?thesis by (intro disjI1 [OF act_ways [of _ _ _ t c]]) (simp add: advance_def)
next
  case (detached_pending t c op op' d)
  then show ?thesis by (intro disjI1 [OF act_ways [of _ _ _ t c]]) (simp add: advance_def)
next
  case (detached_ready t c op r d)
  then show ?thesis by (intro disjI1 [OF act_ways [of _ _ _ t c]]) (simp add: advance_def)
qed

fun run_actions ::
  "('w, 'conn, 'snd, 'rcv, 'vi, 'e, 'z) stream_api_scheme \<Rightarrow> 'm mutex_api \<Rightarrow> ('s, 'op, 'v) op_api \<Rightarrow>
   action list \<Rightarrow> ('m, 's, 'op, 'v) stream_sys \<Rightarrow> ('m, 's, 'op, 'v) stream_sys option" where
  "run_actions S M L [] s = Some s"
| "run_actions S M L (a # as) s = Option.bind (act S M L a s) (run_actions S M L as)"

lemma run_actions_reach:
  "run_actions S M L as s = Some s' \<Longrightarrow> stream_reach S M L d s \<Longrightarrow> stream_reach S M L d s'"
proof (induction as arbitrary: s)
  case (Cons a as)
  then obtain s1 where "act S M L a s = Some s1" "run_actions S M L as s1 = Some s'"
    by (auto simp: bind_eq_Some_conv)
  with Cons stream_reach.step [OF Cons.prems(2) act_step] show ?case by blast
qed simp

section \<open>A concrete system\<close>

text \<open>A mutex that knows its holder.\<close>

definition demo_mutex :: "nat option mutex_api" where
  "demo_mutex =
     \<lparr>mx_acquire = (\<lambda>m t. case m of None \<Rightarrow> Some (Some t) | Some _ \<Rightarrow> None), mx_release = (\<lambda>_. None), mx_holder = id\<rparr>"

text \<open>
  A stream with a log of the bytes sent, a log of the bytes read and the bytes that have
  arrived and are not read.  Its futures carry their call and what they moved;
  \<^verbatim>\<open>send_bytes\<close> and \<^verbatim>\<open>read_exact\<close> move one byte per poll.
\<close>

record demo_halves =
  dh_sent :: bytes
  dh_taken :: bytes
  dh_unread :: bytes

fun demo_poll ::
  "stream_call \<times> bytes \<Rightarrow> demo_halves \<Rightarrow> ((stream_call \<times> bytes) + stream_val iroh_result) \<times> demo_halves" where
  "demo_poll (SendBytes data, m) w =
     (case drop (length m) data of
        [] \<Rightarrow> (Inr (Inr VUnit), w)
      | b # _ \<Rightarrow> (Inl (SendBytes data, m @ [b]), w\<lparr>dh_sent := dh_sent w @ [b]\<rparr>))"
| "demo_poll (ReadExact n, m) w =
     (if unat n \<le> length m then (Inr (Inr (VBytes m)), w)
      else case dh_unread w of
        [] \<Rightarrow> (Inr (Inl (Generic ''finished early'')), w)
      | b # bs \<Rightarrow> (Inl (ReadExact n, m @ [b]), w\<lparr>dh_taken := dh_taken w @ [b], dh_unread := bs\<rparr>))"
| "demo_poll (Recv n, m) w =
     (if dh_unread w = [] then (Inr (Inr (VChunk None)), w)
      else (Inr (Inr (VChunk (Some (take (unat n) (dh_unread w))))),
            w\<lparr>dh_taken := dh_taken w @ take (unat n) (dh_unread w), dh_unread := drop (unat n) (dh_unread w)\<rparr>))"
| "demo_poll (ReadToEnd n, m) w =
     (if length m + length (dh_unread w) \<le> unat n
      then (Inr (Inr (VBytes (m @ dh_unread w))), w\<lparr>dh_taken := dh_taken w @ dh_unread w, dh_unread := []\<rparr>)
      else (Inr (Inl (Generic ''too long'')), w))"
| "demo_poll (c, m) w = (Inr (Inr VUnit), w)"

definition demo_ops :: "(demo_halves, stream_call \<times> bytes, stream_val) op_api" where
  "demo_ops =
     \<lparr>op_offers = (\<lambda>_. True), op_start = (\<lambda>c. (c, [])), op_poll = demo_poll, op_env = (\<lambda>w w'. w' = w)\<rparr>"

definition demo_arrived :: "bytes \<Rightarrow> demo_halves" where
  "demo_arrived bs = \<lparr>dh_sent = [], dh_taken = [], dh_unread = bs\<rparr>"

definition demo_fresh :: "'s \<Rightarrow> (nat option, 's, 'op, 'v) stream_sys" where
  "demo_fresh d = \<lparr>sys_mutex = (\<lambda>_. None), sys_data = d, sys_tasks = (\<lambda>_. Idle)\<rparr>"

lemma demo_mutex_laws: "mutex_laws demo_mutex"
  by (auto simp: mutex_laws_def demo_mutex_def split: option.splits)

text \<open>The polls that move bytes.\<close>

lemma demo_poll_pending:
  assumes "demo_poll op w = (Inl op', w')"
  shows "\<exists>b. op' = (fst op, snd op @ [b]) \<and>
     ((\<exists>data. fst op = SendBytes data \<and> length (snd op) < length data \<and> b = data ! length (snd op) \<and>
         w' = w\<lparr>dh_sent := dh_sent w @ [b]\<rparr>) \<or>
      (\<exists>n. fst op = ReadExact n \<and> length (snd op) < unat n \<and>
         w' = w\<lparr>dh_taken := dh_taken w @ [b], dh_unread := tl (dh_unread w)\<rparr>))"
  using assms
proof (cases "(op, w)" rule: demo_poll.cases)
  case (1 data m w1)
  with assms have "length m < length data" by (auto split: list.splits) (metis drop_eq_Nil linorder_not_less neq_Nil_conv)
  moreover from this have "drop (length m) data = data ! length m # drop (Suc (length m)) data"
    by (simp add: Cons_nth_drop_Suc)
  ultimately show ?thesis using 1 assms by auto
qed (auto split: if_splits list.splits)

lemma prefix_nth_snoc: "prefix xs ys \<Longrightarrow> length xs < length ys \<Longrightarrow> prefix (xs @ [ys ! length xs]) ys"
  by (metis append_eq_conv_conj prefixE take_Suc_conv_app_nth take_is_prefix)

lemma demo_send_laws: "traffic_laws demo_ops sends_bytes part_sent all_sent fst snd dh_sent"
  unfolding traffic_laws_def
proof (intro conjI allI impI, goal_cases)
  case (4 op d op' d')
  then obtain data where data: "fst op = SendBytes data" by (cases "fst op") auto
  with 4 have poll: "op' = (fst op, snd op @ [data ! length (snd op)])" "length (snd op) < length data"
      "dh_sent d' = dh_sent d @ [data ! length (snd op)]"
    using demo_poll_pending [of op d op' d'] by (auto simp: demo_ops_def)
  moreover have "prefix (snd op) data" using 4 data by simp
  ultimately show ?case using data prefix_nth_snoc by simp
next
  case (5 op d v d')
  then obtain data where "fst op = SendBytes data" by (cases "fst op") auto
  with 5 show ?case
    by (cases op) (auto simp: demo_ops_def prefix_def split: list.splits)
next
  case (6 op d r d')
  then show ?case
    by (cases "(op, d)" rule: demo_poll.cases) (auto simp: demo_ops_def split: if_splits list.splits)
qed (auto simp: demo_ops_def dest: demo_poll_pending)

lemma demo_recv_traffic: "traffic_laws demo_ops reads_bytes part_read all_read fst snd dh_taken"
  unfolding traffic_laws_def
proof (intro conjI allI impI, goal_cases)
  case (4 op d op' d')
  with demo_poll_pending [of op d op' d'] show ?case by (auto simp: demo_ops_def)
next
  case (5 op d v d')
  then show ?case
    by (cases "(op, d)" rule: demo_poll.cases) (auto simp: demo_ops_def split: if_splits list.splits)
next
  case (6 op d r d')
  then show ?case
    by (cases "(op, d)" rule: demo_poll.cases) (auto simp: demo_ops_def split: if_splits list.splits)
qed (auto simp: demo_ops_def dest: demo_poll_pending)



lemma demo_fresh_reach: "stream_reach S demo_mutex L d (demo_fresh d)"
  by (rule stream_reach.init) (simp add: stream_init_def demo_fresh_def demo_mutex_def)

text \<open>The data a task sends, for a \<^verbatim>\<open>send_bytes\<close> call that got the guard or may have had it.\<close>

fun sends :: "('op, 'v) task \<Rightarrow> bytes option" where
  "sends (Holding (SendBytes data) op) = Some data"
| "sends (Done (SendBytes data) v) = Some data"
| "sends (Cancelled (SendBytes data)) = Some data"
| "sends _ = None"

text \<open>The call of a task that got the guard or may have had it.\<close>

fun took_guard :: "('op, 'v) task \<Rightarrow> stream_call option" where
  "took_guard (Holding c op) = Some c"
| "took_guard (Done c v) = Some c"
| "took_guard (Cancelled c) = Some c"
| "took_guard _ = None"

lemma sends_prefix:
  assumes "sends_bytes c" "(\<exists>op. p = Holding c op \<and> part_sent c q) \<or> p = Cancelled c \<and> part_sent c q \<or>
      (\<exists>v. p = Done c v \<and> all_sent c q v)"
  shows "\<exists>data. sends p = Some data \<and> prefix q data"
proof -
  obtain data where c: "c = SendBytes data" using assms(1) by (cases c) auto
  have "prefix q data" if "all_sent c q v" for v :: "'b iroh_result" using that by (cases v) (auto simp: c)
  with assms(2) c show ?thesis by auto
qed

definition demo_schedule :: "action list" where
  "demo_schedule =
     [Call 0 (SendBytes [1, 2]), Call 1 (SendBytes [8, 9]), Advance 0, Advance 1, Advance 1, Advance 1,
      Advance 1, Advance 1, Advance 0, Advance 0]"

text \<open>Task 1 has sent its two bytes, task 0 one of its two.\<close>

definition demo_mid :: "(nat option, demo_halves, stream_call \<times> bytes, stream_val) stream_sys" where
  "demo_mid = the (run_actions demo_stream_api demo_mutex demo_ops demo_schedule (demo_fresh (demo_arrived [])))"

lemma demo_mid_run:
  "run_actions demo_stream_api demo_mutex demo_ops demo_schedule (demo_fresh (demo_arrived [])) = Some demo_mid"
  "sys_tasks demo_mid 0 = Holding (SendBytes [1, 2]) (SendBytes [1, 2], [1])" "dh_sent (sys_data demo_mid) = [8, 9, 1]"
  "sys_tasks demo_mid 1 = Done (SendBytes [8, 9]) (Inr VUnit)"
  by (simp_all add: demo_mid_def demo_schedule_def demo_fresh_def demo_arrived_def advance_def early_error_def demo_mutex_def demo_ops_def
      set_task_def set_mutex_def set_data_def release_def guard_dropped_early_def)

lemma demo_mid_reach: "stream_reach demo_stream_api demo_mutex demo_ops (demo_arrived []) demo_mid"
  by (rule run_actions_reach [OF demo_mid_run(1) demo_fresh_reach])





text \<open>A \<^verbatim>\<open>read_exact\<close> given up after one byte, and the two reads that come after it.\<close>

definition demo_reads :: "action list" where
  "demo_reads =
     [Call 0 (ReadExact 2), Advance 0, Advance 0, Advance 0, Cancel 0,
      Call 1 (Recv 2), Advance 1, Advance 1, Advance 1,
      Call 2 (ReadExact 2), Advance 2, Advance 2, Advance 2, Advance 2, Advance 2]"

definition demo_lost :: "(nat option, demo_halves, stream_call \<times> bytes, stream_val) stream_sys" where
  "demo_lost = the (run_actions demo_stream_api demo_mutex demo_ops demo_reads (demo_fresh (demo_arrived [1, 2, 3, 4, 5])))"

lemma demo_lost_run:
  "run_actions demo_stream_api demo_mutex demo_ops demo_reads (demo_fresh (demo_arrived [1, 2, 3, 4, 5])) = Some demo_lost"
  "sys_tasks demo_lost 0 = Cancelled (ReadExact 2)"
  "sys_tasks demo_lost 1 = Done (Recv 2) (Inr (VChunk (Some [2, 3])))"
  "sys_tasks demo_lost 2 = Done (ReadExact 2) (Inr (VBytes [4, 5]))"
  "dh_taken (sys_data demo_lost) = [1, 2, 3, 4, 5]"
  by (simp_all add: demo_lost_def demo_reads_def demo_fresh_def demo_arrived_def advance_def early_error_def demo_mutex_def
      demo_ops_def set_task_def set_mutex_def set_data_def release_def guard_dropped_early_def cancellable_def)

lemma demo_lost_reach: "stream_reach demo_stream_api demo_mutex demo_ops (demo_arrived [1, 2, 3, 4, 5]) demo_lost"
  by (rule run_actions_reach [OF demo_lost_run(1) demo_fresh_reach])

section \<open>Properties\<close>

text \<open>C1: Concurrent \<^verbatim>\<open>send_bytes\<close> calls on a stream never mix their data.  In every reachable state
  the bytes accepted for sending are one uninterrupted piece per call, in some order: the
  whole data of every call that has returned successfully, and a prefix of the data of
  a call that is under way, failed or was cancelled.\<close>

theorem concurrent_sends_do_not_mix:
  assumes "mutex_laws M" "traffic_laws L sends_bytes part_sent all_sent call_of moved wire" "stream_reach S M L d s"
  shows "\<exists>ps. wire (sys_data s) = wire d @ concat (map snd ps) \<and> distinct (map fst ps) \<and>
     (\<forall>t data v. sys_tasks s t = Done (SendBytes data) (Inr v) \<longrightarrow> (t, data) \<in> set ps) \<and>
     (\<forall>t p. (t, p) \<in> set ps \<longrightarrow> (\<exists>data. sends (sys_tasks s t) = Some data \<and> prefix p data))"
proof -
  obtain ps where ps: "wire (sys_data s) = wire d @ concat (map snd ps)" "distinct (map fst ps)"
    and fin: "\<forall>t c v. sys_tasks s t = Done c v \<and> sends_bytes c \<longrightarrow> (\<exists>q. (t, q) \<in> set ps \<and> all_sent c q v)"
    and own: "\<forall>t q. (t, q) \<in> set ps \<longrightarrow> (\<exists>c. sends_bytes c \<and>
      ((\<exists>op. sys_tasks s t = Holding c op \<and> part_sent c q) \<or> sys_tasks s t = Cancelled c \<and> part_sent c q \<or>
       (\<exists>v. sys_tasks s t = Done c v \<and> all_sent c q v)))"
    using send_traffic.traffic_pieces [OF assms] by blast
  have "(t, data) \<in> set ps" if "sys_tasks s t = Done (SendBytes data) (Inr v)" for t data v
    using fin that by fastforce
  moreover have "\<exists>data. sends (sys_tasks s t) = Some data \<and> prefix q data" if piece: "(t, q) \<in> set ps" for t q
  proof -
    obtain c where c: "sends_bytes c" and task: "(\<exists>op. sys_tasks s t = Holding c op \<and> part_sent c q) \<or>
        sys_tasks s t = Cancelled c \<and> part_sent c q \<or> (\<exists>v. sys_tasks s t = Done c v \<and> all_sent c q v)"
      using own piece by blast
    from sends_prefix [OF this] show ?thesis .
  qed
  ultimately show ?thesis using ps by blast
qed

theorem concurrent_sends_do_not_mix_witness:
  "\<exists>ps. [8, 9, 1 :: u8] = concat (map snd ps) \<and> (1 :: nat, [8, 9]) \<in> set ps \<and>
     stream_reach demo_stream_api demo_mutex demo_ops (demo_arrived []) demo_mid"
  using concurrent_sends_do_not_mix [OF demo_mutex_laws demo_send_laws demo_mid_reach]
    demo_mid_run(3,4) demo_mid_reach by (auto simp: demo_arrived_def)

text \<open>C8: Concurrent reads on a stream share out its bytes: what has been taken from the receive
  half is one uninterrupted piece per call, in order.  A call that returned got exactly
  its piece, of the length it asked for; a cancelled \<^verbatim>\<open>recv\<close> has taken nothing; and no
  byte is given to two calls.\<close>

theorem concurrent_reads_partition:
  assumes "mutex_laws M" "traffic_laws L reads_bytes part_read all_read call_of moved taken" "stream_reach S M L d s"
  shows "\<exists>ps. taken (sys_data s) = taken d @ concat (map snd ps) \<and> distinct (map fst ps) \<and>
     (\<forall>t n bs. sys_tasks s t = Done (Recv n) (Inr (VChunk (Some bs))) \<longrightarrow> (t, bs) \<in> set ps \<and> length bs \<le> unat n) \<and>
     (\<forall>t n bs. sys_tasks s t = Done (ReadExact n) (Inr (VBytes bs)) \<longrightarrow> (t, bs) \<in> set ps \<and> length bs = unat n) \<and>
     (\<forall>t n bs. sys_tasks s t = Done (ReadToEnd n) (Inr (VBytes bs)) \<longrightarrow> (t, bs) \<in> set ps \<and> length bs \<le> unat n) \<and>
     (\<forall>t q n. (t, q) \<in> set ps \<and> sys_tasks s t = Cancelled (Recv n) \<longrightarrow> q = []) \<and>
     (\<forall>t q. (t, q) \<in> set ps \<longrightarrow> (\<exists>c. reads_bytes c \<and> took_guard (sys_tasks s t) = Some c))"
proof -
  obtain ps where ps: "taken (sys_data s) = taken d @ concat (map snd ps)" "distinct (map fst ps)"
    and fin: "\<forall>t c v. sys_tasks s t = Done c v \<and> reads_bytes c \<longrightarrow> (\<exists>q. (t, q) \<in> set ps \<and> all_read c q v)"
    and own: "\<forall>t q. (t, q) \<in> set ps \<longrightarrow> (\<exists>c. reads_bytes c \<and>
      ((\<exists>op. sys_tasks s t = Holding c op \<and> part_read c q) \<or> sys_tasks s t = Cancelled c \<and> part_read c q \<or>
       (\<exists>v. sys_tasks s t = Done c v \<and> all_read c q v)))"
    using recv_traffic.traffic_pieces [OF assms] by blast
  have "\<exists>c. reads_bytes c \<and> took_guard (sys_tasks s t) = Some c" if "(t, q) \<in> set ps" for t q
    using own that by fastforce
  moreover have "q = []" if "(t, q) \<in> set ps \<and> sys_tasks s t = Cancelled (Recv n)" for t q n
    using own that by fastforce
  moreover have "(t, bs) \<in> set ps \<and> length bs \<le> unat n"
    if "sys_tasks s t = Done (Recv n) (Inr (VChunk (Some bs)))" for t n bs using fin that by fastforce
  moreover have "(t, bs) \<in> set ps \<and> length bs = unat n"
    if "sys_tasks s t = Done (ReadExact n) (Inr (VBytes bs))" for t n bs using fin that by fastforce
  moreover have "(t, bs) \<in> set ps \<and> length bs \<le> unat n"
    if "sys_tasks s t = Done (ReadToEnd n) (Inr (VBytes bs))" for t n bs using fin that by fastforce
  ultimately show ?thesis using ps by (intro exI [of _ ps] conjI allI impI) auto
qed

theorem concurrent_reads_partition_witness:
  "\<exists>ps. [1, 2, 3, 4, 5 :: u8] = concat (map snd ps) \<and> (1 :: nat, [2, 3]) \<in> set ps \<and> (2, [4, 5]) \<in> set ps \<and>
     sys_tasks demo_lost 0 = Cancelled (ReadExact 2)"
proof -
  from concurrent_reads_partition [OF demo_mutex_laws demo_recv_traffic demo_lost_reach]
  obtain ps where ps: "dh_taken (sys_data demo_lost) = dh_taken (demo_arrived [1, 2, 3, 4, 5]) @ concat (map snd ps)"
    and recv: "\<forall>t n bs. sys_tasks demo_lost t = Done (Recv n) (Inr (VChunk (Some bs))) \<longrightarrow> (t, bs) \<in> set ps \<and> length bs \<le> unat n"
    and exact: "\<forall>t n bs. sys_tasks demo_lost t = Done (ReadExact n) (Inr (VBytes bs)) \<longrightarrow> (t, bs) \<in> set ps \<and> length bs = unat n"
    by (elim exE conjE)
  have "(1, [2, 3]) \<in> set ps" using recv demo_lost_run(3) by simp
  moreover have "(2, [4, 5]) \<in> set ps" using exact demo_lost_run(4) by simp
  moreover have "[1, 2, 3, 4, 5] = concat (map snd ps)" using ps demo_lost_run(5) by (simp add: demo_arrived_def)
  ultimately show ?thesis using demo_lost_run(2) by blast
qed










text \<open>The same for the send-only and the receive-only streams.\<close>

lemma uni_streams_linearizable:
  "(stream_reach S M (seq_ops IrohSendStream_offers (IrohSendStream_run S x) env) w s \<longrightarrow>
     (\<exists>es. replay (IrohSendStream_run S x) env es w (sys_data s) \<and> distinct (ran es) \<and>
        (\<forall>t c r. Ran t c r \<in> set es \<longleftrightarrow> sys_tasks s t = Done c r))) \<and>
   (stream_reach S M (seq_ops IrohRecvStream_offers (IrohRecvStream_run S y) env) w s \<longrightarrow>
     (\<exists>es. replay (IrohRecvStream_run S y) env es w (sys_data s) \<and> distinct (ran es) \<and>
        (\<forall>t c r. Ran t c r \<in> set es \<longleftrightarrow> sys_tasks s t = Done c r)))"
  by (intro conjI impI send_object.linearizable recv_object.linearizable)

end
