(* ===== verification/Delivery.thy ===== *)
theory Delivery
  imports Endpoint
begin

text \<open>
  Data from one end of a connection to the other: a peer opens a stream, sends on it in
  any number of \<^verbatim>\<open>send_bytes\<close> calls and finishes it; the other side accepts the stream and
  reads it to the end (connection.rs and stream.rs together).  The interface \<open>byte_pipe\<close>
  says what the two ends promise; the bidirectional and the uni-directional streams of
  the crate provide it.
\<close>

section \<open>The library's link\<close>

text \<open>
  The documented behaviour of the QUIC streams of one connection with the ends \<open>a\<close> and \<open>b\<close>.
  \<open>quiet\<close>: no stream of \<open>a\<close> waits to be accepted at \<open>b\<close>.  \<open>opened s bs\<close>: \<open>a\<close> has opened
  the one stream \<open>s\<close> that \<open>b\<close> has not accepted and written \<open>bs\<close>.  \<open>finished bs\<close>: it is finished.
  \<open>readable r bs\<close>: \<open>b\<close> has accepted it and \<open>bs\<close> is still to be read from \<open>r\<close>.
  \<open>open_lib\<close> and \<open>accept_lib\<close> are the library's calls for one kind of stream, \<open>snd_of\<close> and
  \<open>rcv_of\<close> the halves of what they return.
\<close>

definition pipe_laws ::
  "('w, 'conn, 'snd, 'rcv, 'vi, 'e, 'z) stream_api_scheme \<Rightarrow>
   ('conn \<Rightarrow> ('w, 'x ConnectionError + 'o) async) \<Rightarrow> ('conn \<Rightarrow> ('w, 'x ConnectionError + 'i) async) \<Rightarrow>
   ('o \<Rightarrow> 'snd) \<Rightarrow> ('i \<Rightarrow> 'rcv) \<Rightarrow>
   ('conn \<Rightarrow> 'conn \<Rightarrow> 'w \<Rightarrow> bool) \<Rightarrow> ('conn \<Rightarrow> 'conn \<Rightarrow> 'snd \<Rightarrow> bytes \<Rightarrow> 'w \<Rightarrow> bool) \<Rightarrow>
   ('conn \<Rightarrow> 'conn \<Rightarrow> bytes \<Rightarrow> 'w \<Rightarrow> bool) \<Rightarrow> ('conn \<Rightarrow> 'conn \<Rightarrow> 'rcv \<Rightarrow> bytes \<Rightarrow> 'w \<Rightarrow> bool) \<Rightarrow> bool" where
  "pipe_laws S open_lib accept_lib snd_of rcv_of quiet opened finished readable \<longleftrightarrow>
     (\<forall>a b w. quiet a b w \<longrightarrow> (\<exists>x w'. open_lib a w = Some (Inr x, w') \<and> opened a b (snd_of x) [] w')) \<and>
     (\<forall>a b s bs data w. opened a b s bs w \<longrightarrow>
        (\<exists>w'. ss_write_all S s data w = Some (Inr (), w') \<and> opened a b s (bs @ data) w')) \<and>
     (\<forall>a b s bs w. opened a b s bs w \<longrightarrow> (\<exists>w'. ss_finish S s w = (Inr (), w') \<and> finished a b bs w')) \<and>
     (\<forall>a b bs w. finished a b bs w \<longrightarrow>
        (\<exists>y w'. accept_lib b w = Some (Inr y, w') \<and> readable a b (rcv_of y) bs w')) \<and>
     (\<forall>a b r bs lim w. readable a b r bs w \<longrightarrow> (if length bs \<le> lim
        then \<exists>w'. rs_read_to_end S r lim w = Some (Inr bs, w') \<and> quiet a b w'
        else \<exists>e w'. rs_read_to_end S r lim w = Some (Inl e, w')))"

lemma pipe_lawsD:
  assumes "pipe_laws S open_lib accept_lib snd_of rcv_of quiet opened finished readable"
  shows "quiet a b w \<Longrightarrow> \<exists>x w'. open_lib a w = Some (Inr x, w') \<and> opened a b (snd_of x) [] w'"
    and "opened a b s bs w \<Longrightarrow> \<exists>w'. ss_write_all S s data w = Some (Inr (), w') \<and> opened a b s (bs @ data) w'"
    and "opened a b s bs w \<Longrightarrow> \<exists>w'. ss_finish S s w = (Inr (), w') \<and> finished a b bs w'"
    and "finished a b bs w \<Longrightarrow> \<exists>y w'. accept_lib b w = Some (Inr y, w') \<and> readable a b (rcv_of y) bs w'"
    and "readable a b r bs w \<Longrightarrow> length bs \<le> lim \<Longrightarrow>
      \<exists>w'. rs_read_to_end S r lim w = Some (Inr bs, w') \<and> quiet a b w'"
    and "readable a b r bs w \<Longrightarrow> lim < length bs \<Longrightarrow> \<exists>e w'. rs_read_to_end S r lim w = Some (Inl e, w')"
  using assms unfolding pipe_laws_def by (metis linorder_not_less)+

section \<open>The client\<close>

text \<open>Sending a message in chunks, and moving whole messages, each over a stream of its own.\<close>

fun send_all :: "(bytes \<Rightarrow> ('w, unit iroh_result) async) \<Rightarrow> bytes list \<Rightarrow> ('w, unit iroh_result) async" where
  "send_all send [] = ready (Inr ())"
| "send_all send (c # cs) = await_try (send c) (\<lambda>_. send_all send cs)"

definition transfer ::
  "('w, 's iroh_result) async \<Rightarrow> ('s \<Rightarrow> bytes \<Rightarrow> ('w, unit iroh_result) async) \<Rightarrow> ('s \<Rightarrow> ('w, unit iroh_result) async) \<Rightarrow>
   ('w, 'r iroh_result) async \<Rightarrow> ('r \<Rightarrow> ('w, bytes iroh_result) async) \<Rightarrow> bytes list \<Rightarrow> ('w, bytes iroh_result) async" where
  "transfer open_stream send finish accept read chunks =
     await_try open_stream (\<lambda>s.
     await_try (send_all (send s) chunks) (\<lambda>_.
     await_try (finish s) (\<lambda>_.
     await_try accept read)))"

fun transfers ::
  "('w, 's iroh_result) async \<Rightarrow> ('s \<Rightarrow> bytes \<Rightarrow> ('w, unit iroh_result) async) \<Rightarrow> ('s \<Rightarrow> ('w, unit iroh_result) async) \<Rightarrow>
   ('w, 'r iroh_result) async \<Rightarrow> ('r \<Rightarrow> ('w, bytes iroh_result) async) \<Rightarrow> bytes list list \<Rightarrow> ('w, bytes list iroh_result) async" where
  "transfers open_stream send finish accept read [] = ready (Inr [])"
| "transfers open_stream send finish accept read (m # ms) =
     await_try (transfer open_stream send finish accept read m) (\<lambda>bs.
     await_map (transfers open_stream send finish accept read ms) (map_ok (\<lambda>bss. bs # bss)))"

section \<open>The interface\<close>

locale byte_pipe =
  fixes lawful :: "'p \<Rightarrow> bool"
    and quiet :: "'p \<Rightarrow> 'c \<Rightarrow> 'c \<Rightarrow> 'w \<Rightarrow> bool"
    and opened :: "'p \<Rightarrow> 'c \<Rightarrow> 'c \<Rightarrow> 's \<Rightarrow> bytes \<Rightarrow> 'w \<Rightarrow> bool"
    and finished :: "'p \<Rightarrow> 'c \<Rightarrow> 'c \<Rightarrow> bytes \<Rightarrow> 'w \<Rightarrow> bool"
    and readable :: "'p \<Rightarrow> 'c \<Rightarrow> 'c \<Rightarrow> 'r \<Rightarrow> bytes \<Rightarrow> 'w \<Rightarrow> bool"
    and open_stream :: "'p \<Rightarrow> 'c \<Rightarrow> ('w, 's iroh_result) async"
    and send :: "'p \<Rightarrow> 's \<Rightarrow> bytes \<Rightarrow> ('w, unit iroh_result) async"
    and finish :: "'p \<Rightarrow> 's \<Rightarrow> ('w, unit iroh_result) async"
    and accept :: "'p \<Rightarrow> 'c \<Rightarrow> ('w, 'r iroh_result) async"
    and read :: "'p \<Rightarrow> 'r \<Rightarrow> u32 \<Rightarrow> ('w, bytes iroh_result) async"
  assumes open_ok: "lawful p \<Longrightarrow> quiet p a b w \<Longrightarrow>
      \<exists>s w'. open_stream p a w = Some (Inr s, w') \<and> opened p a b s [] w'"
    and send_ok: "lawful p \<Longrightarrow> opened p a b s bs w \<Longrightarrow>
      \<exists>w'. send p s data w = Some (Inr (), w') \<and> opened p a b s (bs @ data) w'"
    and finish_ok: "lawful p \<Longrightarrow> opened p a b s bs w \<Longrightarrow>
      \<exists>w'. finish p s w = Some (Inr (), w') \<and> finished p a b bs w'"
    and accept_ok: "lawful p \<Longrightarrow> finished p a b bs w \<Longrightarrow>
      \<exists>r w'. accept p b w = Some (Inr r, w') \<and> readable p a b r bs w'"
    and read_ok: "lawful p \<Longrightarrow> readable p a b r bs w \<Longrightarrow> length bs \<le> unat m \<Longrightarrow>
      \<exists>w'. read p r m w = Some (Inr bs, w') \<and> quiet p a b w'"
    and read_err: "lawful p \<Longrightarrow> readable p a b r bs w \<Longrightarrow> unat m < length bs \<Longrightarrow>
      \<exists>e w'. read p r m w = Some (Inl e, w')"
begin

lemma send_all_ok:
  assumes "lawful p" "opened p a b s bs w"
  shows "\<exists>w'. send_all (send p s) chunks w = Some (Inr (), w') \<and> opened p a b s (bs @ concat chunks) w'"
  using assms(2)
proof (induction chunks arbitrary: bs w)
  case (Cons c cs)
  obtain w1 where w1: "send p s c w = Some (Inr (), w1)" "opened p a b s (bs @ c) w1"
    using send_ok [OF assms(1) Cons.prems] by blast
  from Cons.IH [OF w1(2)] w1(1) show ?case by auto
qed simp

text \<open>Up to the point where the other side has the stream in hand.\<close>

lemma reaches_peer:
  assumes "lawful p" "quiet p a b w"
  shows "\<exists>r w'. readable p a b r (concat chunks) w' \<and>
     transfer (open_stream p a) (send p) (finish p) (accept p b) k chunks w = k r w'"
proof -
  obtain s w1 where w1: "open_stream p a w = Some (Inr s, w1)" "opened p a b s [] w1"
    using open_ok [OF assms] by blast
  obtain w2 where w2: "send_all (send p s) chunks w1 = Some (Inr (), w2)" "opened p a b s (concat chunks) w2"
    using send_all_ok [OF assms(1) w1(2)] by auto
  obtain w3 where w3: "finish p s w2 = Some (Inr (), w3)" "finished p a b (concat chunks) w3"
    using finish_ok [OF assms(1) w2(2)] by blast
  obtain r w4 where "accept p b w3 = Some (Inr r, w4)" "readable p a b r (concat chunks) w4"
    using accept_ok [OF assms(1) w3(2)] by blast
  with w1(1) w2(1) w3(1) show ?thesis by (auto simp: transfer_def)
qed

lemma transfer_ok:
  assumes "lawful p" "quiet p a b w" "length (concat chunks) \<le> unat m"
  shows "\<exists>w'. transfer (open_stream p a) (send p) (finish p) (accept p b) (\<lambda>r. read p r m) chunks w =
     Some (Inr (concat chunks), w') \<and> quiet p a b w'"
proof -
  obtain r w1 where w1: "readable p a b r (concat chunks) w1"
    and eq: "transfer (open_stream p a) (send p) (finish p) (accept p b) (\<lambda>r. read p r m) chunks w = read p r m w1"
    using reaches_peer [OF assms(1,2), of chunks "\<lambda>r. read p r m"] by blast
  from read_ok [OF assms(1) w1 assms(3)] show ?thesis unfolding eq .
qed

lemma transfers_ok:
  assumes "lawful p" "quiet p a b w" "list_all (\<lambda>cs. length (concat cs) \<le> unat m) msgs"
  shows "\<exists>w'. transfers (open_stream p a) (send p) (finish p) (accept p b) (\<lambda>r. read p r m) msgs w =
     Some (Inr (map concat msgs), w') \<and> quiet p a b w'"
  using assms(2,3)
proof (induction msgs arbitrary: w)
  case (Cons cs msgs)
  then obtain w1 where w1: "transfer (open_stream p a) (send p) (finish p) (accept p b) (\<lambda>r. read p r m) cs w =
      Some (Inr (concat cs), w1)" "quiet p a b w1"
    using transfer_ok [OF assms(1) Cons.prems(1), of cs m] by auto
  have "list_all (\<lambda>cs. length (concat cs) \<le> unat m) msgs" using Cons.prems(2) by simp
  with Cons.IH [OF w1(2)] w1(1) show ?case by auto
qed simp

text \<open>A message longer than the reader's limit is refused as a whole.\<close>

lemma transfer_too_long:
  assumes "lawful p" "quiet p a b w" "unat m < length (concat chunks)"
  shows "\<exists>e w'. transfer (open_stream p a) (send p) (finish p) (accept p b) (\<lambda>r. read p r m) chunks w = Some (Inl e, w')"
proof -
  obtain r w1 where w1: "readable p a b r (concat chunks) w1"
    and eq: "transfer (open_stream p a) (send p) (finish p) (accept p b) (\<lambda>r. read p r m) chunks w = read p r m w1"
    using reaches_peer [OF assms(1,2), of chunks "\<lambda>r. read p r m"] by blast
  from read_err [OF assms(1) w1 assms(3)] show ?thesis unfolding eq .
qed

end

section \<open>The crate's streams provide it\<close>

lemma bi_steps:
  assumes "pipe_laws C (cn_open_bi C) (cn_accept_bi C) fst snd quiet opened finished readable"
  shows "quiet (ic_inner a) (ic_inner b) w \<Longrightarrow>
      \<exists>s w'. IrohConnection_open_bi C a w = Some (Inr s, w') \<and> opened (ic_inner a) (ic_inner b) (is_send s) [] w'"
    and "opened (ic_inner a) (ic_inner b) (is_send s) bs w \<Longrightarrow>
      \<exists>w'. IrohStream_send_bytes C s data w = Some (Inr (), w') \<and> opened (ic_inner a) (ic_inner b) (is_send s) (bs @ data) w'"
    and "opened (ic_inner a) (ic_inner b) (is_send s) bs w \<Longrightarrow>
      \<exists>w'. IrohStream_finish C s w = Some (Inr (), w') \<and> finished (ic_inner a) (ic_inner b) bs w'"
    and "finished (ic_inner a) (ic_inner b) bs w \<Longrightarrow>
      \<exists>r w'. IrohConnection_accept_bi C b w = Some (Inr r, w') \<and> readable (ic_inner a) (ic_inner b) (is_recv r) bs w'"
    and "readable (ic_inner a) (ic_inner b) (is_recv r) bs w \<Longrightarrow> length bs \<le> unat m \<Longrightarrow>
      \<exists>w'. IrohStream_read_to_end C r m w = Some (Inr bs, w') \<and> quiet (ic_inner a) (ic_inner b) w'"
    and "readable (ic_inner a) (ic_inner b) (is_recv r) bs w \<Longrightarrow> unat m < length bs \<Longrightarrow>
      \<exists>e w'. IrohStream_read_to_end C r m w = Some (Inl e, w')"
proof -
  note law = pipe_lawsD [OF assms]
  show "\<exists>s w'. IrohConnection_open_bi C a w = Some (Inr s, w') \<and> opened (ic_inner a) (ic_inner b) (is_send s) [] w'"
    if "quiet (ic_inner a) (ic_inner b) w"
    using law(1) [OF that] by (fastforce simp: IrohConnection_open_bi_def IrohStream_new_def)
  show "\<exists>w'. IrohStream_send_bytes C s data w = Some (Inr (), w') \<and> opened (ic_inner a) (ic_inner b) (is_send s) (bs @ data) w'"
    if "opened (ic_inner a) (ic_inner b) (is_send s) bs w"
    using law(2) [OF that, of data] by (fastforce simp: IrohStream_send_bytes_def)
  show "\<exists>w'. IrohStream_finish C s w = Some (Inr (), w') \<and> finished (ic_inner a) (ic_inner b) bs w'"
    if "opened (ic_inner a) (ic_inner b) (is_send s) bs w"
    using law(3) [OF that] by (fastforce simp: IrohStream_finish_def)
  show "\<exists>r w'. IrohConnection_accept_bi C b w = Some (Inr r, w') \<and> readable (ic_inner a) (ic_inner b) (is_recv r) bs w'"
    if "finished (ic_inner a) (ic_inner b) bs w"
    using law(4) [OF that] by (fastforce simp: IrohConnection_accept_bi_def IrohStream_new_def)
  show "\<exists>w'. IrohStream_read_to_end C r m w = Some (Inr bs, w') \<and> quiet (ic_inner a) (ic_inner b) w'"
    if "readable (ic_inner a) (ic_inner b) (is_recv r) bs w" "length bs \<le> unat m"
    using law(5) [OF that] by (fastforce simp: IrohStream_read_to_end_def)
  show "\<exists>e w'. IrohStream_read_to_end C r m w = Some (Inl e, w')"
    if "readable (ic_inner a) (ic_inner b) (is_recv r) bs w" "unat m < length bs"
    using law(6) [OF that] by (fastforce simp: IrohStream_read_to_end_def)
qed

interpretation bi_pipe: byte_pipe
  "\<lambda>(C, quiet, opened, finished, readable).
     pipe_laws C (cn_open_bi C) (cn_accept_bi C) fst snd quiet opened finished readable"
  "\<lambda>(C, quiet, opened, finished, readable) a b. quiet (ic_inner a) (ic_inner b)"
  "\<lambda>(C, quiet, opened, finished, readable) a b s. opened (ic_inner a) (ic_inner b) (is_send s)"
  "\<lambda>(C, quiet, opened, finished, readable) a b. finished (ic_inner a) (ic_inner b)"
  "\<lambda>(C, quiet, opened, finished, readable) a b r. readable (ic_inner a) (ic_inner b) (is_recv r)"
  "\<lambda>(C, _). IrohConnection_open_bi C" "\<lambda>(C, _). IrohStream_send_bytes C" "\<lambda>(C, _). IrohStream_finish C"
  "\<lambda>(C, _). IrohConnection_accept_bi C" "\<lambda>(C, _). IrohStream_read_to_end C"
  by (unfold_locales; clarsimp; erule bi_steps; assumption)

lemma uni_steps:
  assumes "pipe_laws C (cn_open_uni C) (cn_accept_uni C) id id quiet opened finished readable"
  shows "quiet (ic_inner a) (ic_inner b) w \<Longrightarrow>
      \<exists>s w'. IrohConnection_open_uni C a w = Some (Inr s, w') \<and> opened (ic_inner a) (ic_inner b) (iss_inner s) [] w'"
    and "opened (ic_inner a) (ic_inner b) (iss_inner s) bs w \<Longrightarrow>
      \<exists>w'. IrohSendStream_send_bytes C s data w = Some (Inr (), w') \<and> opened (ic_inner a) (ic_inner b) (iss_inner s) (bs @ data) w'"
    and "opened (ic_inner a) (ic_inner b) (iss_inner s) bs w \<Longrightarrow>
      \<exists>w'. IrohSendStream_finish C s w = Some (Inr (), w') \<and> finished (ic_inner a) (ic_inner b) bs w'"
    and "finished (ic_inner a) (ic_inner b) bs w \<Longrightarrow>
      \<exists>r w'. IrohConnection_accept_uni C b w = Some (Inr r, w') \<and> readable (ic_inner a) (ic_inner b) (irs_inner r) bs w'"
    and "readable (ic_inner a) (ic_inner b) (irs_inner r) bs w \<Longrightarrow> length bs \<le> unat m \<Longrightarrow>
      \<exists>w'. IrohRecvStream_read_to_end C r m w = Some (Inr bs, w') \<and> quiet (ic_inner a) (ic_inner b) w'"
    and "readable (ic_inner a) (ic_inner b) (irs_inner r) bs w \<Longrightarrow> unat m < length bs \<Longrightarrow>
      \<exists>e w'. IrohRecvStream_read_to_end C r m w = Some (Inl e, w')"
proof -
  note law = pipe_lawsD [OF assms]
  show "\<exists>s w'. IrohConnection_open_uni C a w = Some (Inr s, w') \<and> opened (ic_inner a) (ic_inner b) (iss_inner s) [] w'"
    if "quiet (ic_inner a) (ic_inner b) w"
    using law(1) [OF that] by (fastforce simp: IrohConnection_open_uni_def IrohSendStream_new_def)
  show "\<exists>w'. IrohSendStream_send_bytes C s data w = Some (Inr (), w') \<and> opened (ic_inner a) (ic_inner b) (iss_inner s) (bs @ data) w'"
    if "opened (ic_inner a) (ic_inner b) (iss_inner s) bs w"
    using law(2) [OF that, of data] by (fastforce simp: IrohSendStream_send_bytes_def)
  show "\<exists>w'. IrohSendStream_finish C s w = Some (Inr (), w') \<and> finished (ic_inner a) (ic_inner b) bs w'"
    if "opened (ic_inner a) (ic_inner b) (iss_inner s) bs w"
    using law(3) [OF that] by (fastforce simp: IrohSendStream_finish_def)
  show "\<exists>r w'. IrohConnection_accept_uni C b w = Some (Inr r, w') \<and> readable (ic_inner a) (ic_inner b) (irs_inner r) bs w'"
    if "finished (ic_inner a) (ic_inner b) bs w"
    using law(4) [OF that] by (fastforce simp: IrohConnection_accept_uni_def IrohRecvStream_new_def)
  show "\<exists>w'. IrohRecvStream_read_to_end C r m w = Some (Inr bs, w') \<and> quiet (ic_inner a) (ic_inner b) w'"
    if "readable (ic_inner a) (ic_inner b) (irs_inner r) bs w" "length bs \<le> unat m"
    using law(5) [OF that] by (fastforce simp: IrohRecvStream_read_to_end_def)
  show "\<exists>e w'. IrohRecvStream_read_to_end C r m w = Some (Inl e, w')"
    if "readable (ic_inner a) (ic_inner b) (irs_inner r) bs w" "unat m < length bs"
    using law(6) [OF that] by (fastforce simp: IrohRecvStream_read_to_end_def)
qed

interpretation uni_pipe: byte_pipe
  "\<lambda>(C, quiet, opened, finished, readable).
     pipe_laws C (cn_open_uni C) (cn_accept_uni C) id id quiet opened finished readable"
  "\<lambda>(C, quiet, opened, finished, readable) a b. quiet (ic_inner a) (ic_inner b)"
  "\<lambda>(C, quiet, opened, finished, readable) a b s. opened (ic_inner a) (ic_inner b) (iss_inner s)"
  "\<lambda>(C, quiet, opened, finished, readable) a b. finished (ic_inner a) (ic_inner b)"
  "\<lambda>(C, quiet, opened, finished, readable) a b r. readable (ic_inner a) (ic_inner b) (irs_inner r)"
  "\<lambda>(C, _). IrohConnection_open_uni C" "\<lambda>(C, _). IrohSendStream_send_bytes C" "\<lambda>(C, _). IrohSendStream_finish C"
  "\<lambda>(C, _). IrohConnection_accept_uni C" "\<lambda>(C, _). IrohRecvStream_read_to_end C"
  by (unfold_locales; clarsimp; erule uni_steps; assumption)

section \<open>Binding and dialing on one host\<close>

text \<open>
  What a host provides to an endpoint that binds to the default sockets: binding succeeds
  with the configured keys, protocols and lookup services (\<open>alpns_of\<close>, \<open>lookups\<close>), and the
  first socket is the wildcard address with some port.  \<open>fresh\<close>: nobody has dialed the
  endpoint yet.
\<close>

definition any_v4 :: "u16 \<Rightarrow> SocketAddr" where
  "any_v4 port = V4 \<lparr>v4_ip = Ipv4Addr 0 0 0 0, v4_port = port\<rparr>"

definition loopback_v4 :: "u16 \<Rightarrow> SocketAddr" where
  "loopback_v4 port = V4 \<lparr>v4_ip = Ipv4Addr 127 0 0 1, v4_port = port\<rparr>"

definition host_law ::
  "('b, 'url, 'sk, 'berr) builder_api \<Rightarrow> ('b \<Rightarrow> ('url, 'sk, 'svc, 'bind) builder_view) \<Rightarrow>
   ('w, 'ep, 'conn, 'inc, 'acc, 'b, 'pk, 'sk, 'addr, 'e) ep_api \<Rightarrow>
   ('w, 'ep, 'pk, 'addr, 'url, 'o, 'wt, 'ri) info_api \<Rightarrow> ('ep \<Rightarrow> 'w \<Rightarrow> bool) \<Rightarrow> ('ep \<Rightarrow> bytes list) \<Rightarrow>
   ('ep \<Rightarrow> 'svc list) \<Rightarrow> bool" where
  "host_law B view E I fresh alpns_of lookups \<longleftrightarrow>
     (\<forall>b w. bv_bind (view b) = bv_bind (view (n0_apply B (b_empty B))) \<longrightarrow>
        (\<exists>ep w' port rest. ep_bind E b w = Some (Inr ep, w') \<and> fresh ep w' \<and> \<not> ep_is_closed E ep w' \<and>
           alpns_of ep = bv_alpns (view b) \<and> lookups ep = bv_lookup (view b) \<and>
           (bv_secret (view b) \<noteq> None \<longrightarrow> bv_secret (view b) = Some (ep_secret_key E ep)) \<and>
           ep_bound_sockets I ep w' = any_v4 port # rest)) \<and>
     (\<forall>ep ep' b w w'. \<not> ep_is_closed E ep w \<and> ep_bind E b w = Some (Inr ep', w') \<longrightarrow> \<not> ep_is_closed E ep w') \<and>
     (\<forall>ep ep' w. ep_is_closed E ep (ep_spawn_online E ep' w) = ep_is_closed E ep w) \<and>
     (\<forall>ep w. ep_close E ep w \<noteq> None)"

lemma host_law_bind:
  assumes "host_law B view E I fresh alpns_of lookups" "bv_bind (view b) = bv_bind (view (n0_apply B (b_empty B)))"
  obtains ep w' port rest where "ep_bind E b w = Some (Inr ep, w')" "fresh ep w'" "\<not> ep_is_closed E ep w'"
    "alpns_of ep = bv_alpns (view b)" "lookups ep = bv_lookup (view b)"
    "bv_secret (view b) \<noteq> None \<longrightarrow> bv_secret (view b) = Some (ep_secret_key E ep)"
    "ep_bound_sockets I ep w' = any_v4 port # rest"
  using assms unfolding host_law_def by meson

lemma host_lawD:
  assumes "host_law B view E I fresh alpns_of lookups"
  shows "\<not> ep_is_closed E ep w \<Longrightarrow> ep_bind E b w = Some (Inr ep', w') \<Longrightarrow> \<not> ep_is_closed E ep w'"
    and "ep_is_closed E ep (ep_spawn_online E ep' w) = ep_is_closed E ep w"
    and "\<exists>w'. ep_close E ep w = Some ((), w')"
  using assms unfolding host_law_def by (metis not_None_eq old.unit.exhaust surj_pair)+

text \<open>
  Dialing the loopback address of a fresh endpoint on which a task has started to accept
  (\<open>spawn\<close> is the effect of starting it): the dial completes, the accepting side gets the
  other end of the same connection, and no stream is open on it.
\<close>

definition dial_law ::
  "('pk, 'url, 'o, 'addr, 'ticket, 'aerr) addr_api \<Rightarrow>
   ('w, 'ep, 'conn, 'inc, 'acc, 'b, 'pk, 'sk, 'addr, 'e) ep_api \<Rightarrow>
   ('w, 'ep, 'pk, 'addr, 'url, 'o, 'wt, 'ri) info_api \<Rightarrow> ('ep \<Rightarrow> 'w \<Rightarrow> 'w) \<Rightarrow> ('ep \<Rightarrow> 'w \<Rightarrow> bool) \<Rightarrow>
   ('ep \<Rightarrow> bytes list) \<Rightarrow> ('conn \<Rightarrow> 'conn \<Rightarrow> 'w \<Rightarrow> bool) \<Rightarrow> bool" where
  "dial_law A E I spawn fresh alpns_of quiet \<longleftrightarrow>
     (\<forall>a b w p port rest. fresh b w \<and> ep_bound_sockets I b w = any_v4 port # rest \<and> p \<in> set (alpns_of b) \<longrightarrow>
        (\<exists>ca w1 inc w2 acc w3 cb w4.
           ep_connect E a (addr_from_parts A (ep_id E b) [Ip (loopback_v4 port)]) p (spawn b w) = Some (Inr ca, w1) \<and>
           ep_accept E b w1 = Some (Some inc, w2) \<and> inc_accept E inc w2 = (Inr acc, w3) \<and>
           acc_await E acc w3 = Some (Inr cb, w4) \<and> quiet ca cb w4))"

text \<open>Datagrams on a quiet link arrive (a link on which none is lost).\<close>

definition datagram_law ::
  "('w, 'conn, 'snd, 'rcv, 'vi, 'e, 'x, 'pk, 'z) conn_api_scheme \<Rightarrow> ('conn \<Rightarrow> 'conn \<Rightarrow> 'w \<Rightarrow> bool) \<Rightarrow> bool" where
  "datagram_law C quiet \<longleftrightarrow>
     (\<forall>a b d w. quiet a b w \<longrightarrow>
        (\<exists>w1 w2. cn_send_datagram_wait C a d w = Some (Inr (), w1) \<and>
           cn_read_datagram C b w1 = Some (Inr d, w2) \<and> quiet a b w2))"

text \<open>A dial by address record and the accept on the other side, with the crate's methods.\<close>

lemma dial_and_accept:
  assumes "pk_text_law K" "dial_law A E I spawn fresh alpns_of quiet"
    and "fresh (ie_inner b) w" "ep_bound_sockets I (ie_inner b) w = any_v4 port # rest"
    and "as_bytes alpn \<in> set (alpns_of (ie_inner b))"
  shows "\<exists>ca w1 cb w2.
     IrohEndpoint_connect_addr K A E a
       \<lparr>ea_id = IrohEndpoint_id K E b, ea_relay_url = None,
        ea_direct_addresses = [SocketAddr_to_string (loopback_v4 port)]\<rparr> alpn (spawn (ie_inner b) w) = Some (Inr ca, w1) \<and>
     IrohEndpoint_accept_conn E b w1 = Some (Inr (Some cb), w2) \<and> quiet (ic_inner ca) (ic_inner cb) w2"
proof -
  obtain ca w1 inc w2 acc w3 cb w4 where dial:
      "ep_connect E (ie_inner a) (addr_from_parts A (ep_id E (ie_inner b)) [Ip (loopback_v4 port)]) (as_bytes alpn)
         (spawn (ie_inner b) w) = Some (Inr ca, w1)"
      "ep_accept E (ie_inner b) w1 = Some (Some inc, w2)" "inc_accept E inc w2 = (Inr acc, w3)"
      "acc_await E acc w3 = Some (Inr cb, w4)" "quiet ca cb w4"
    using assms(2-5) unfolding dial_law_def by metis
  have printed: "push_direct [] [SocketAddr_to_string (loopback_v4 port)] = Inr [Ip (loopback_v4 port)]"
    using push_direct_printed [of "[loopback_v4 port]" "[]"] by (simp add: loopback_v4_def textual_def)
  have key: "pk_from_str K (IrohEndpoint_id K E b) = Inr (ep_id E (ie_inner b))"
    using assms(1) by (simp add: pk_text_law_def IrohEndpoint_id_def)
  have "IrohEndpoint_connect_addr K A E a
       \<lparr>ea_id = IrohEndpoint_id K E b, ea_relay_url = None,
        ea_direct_addresses = [SocketAddr_to_string (loopback_v4 port)]\<rparr> alpn (spawn (ie_inner b) w) =
      Some (Inr (IrohConnection_new ca), w1)"
    unfolding IrohEndpoint_connect_addr_def EndpointAddr_try_into_def
    using dial(1) by (simp add: key printed del: push_direct.simps SocketAddr_to_string.simps)
  moreover have "IrohEndpoint_accept_conn E b w1 = Some (Inr (Some (IrohConnection_new cb)), w4)"
    using dial(2-4) by (simp add: IrohEndpoint_accept_conn_def)
  ultimately show ?thesis using dial(5) by (auto simp: IrohConnection_new_def)
qed

end
