(* ===== verification/Loopback.thy ===== *)
theory Loopback
  imports Delivery
begin

text \<open>
  A network in memory: endpoints on one host that dial each other over the loopback
  address, with streams and datagrams that arrive.  It satisfies the laws of \<open>Delivery\<close>
  and of the options, so the properties about them are not vacuous.
\<close>

section \<open>The network\<close>

record loop_ep =
  le_num :: nat
  le_key :: "32 byte_array"
  le_alpns :: "bytes list"
  le_lookups :: "nat list"

record loop_conn =
  lc_link :: nat
  lc_alpn :: bytes
  lc_peer :: "32 byte_array"

text \<open>
  The state: a counter for names, the endpoints being accepted on, the connections that
  wait at each endpoint, the streams of each link that wait to be accepted (with whether
  they are bidirectional), the bytes and the end of each stream, and the datagrams.
\<close>

record loop_net =
  ln_next :: nat
  ln_listening :: "loop_ep list"
  ln_incoming :: "nat \<Rightarrow> loop_conn list"
  ln_streams :: "nat \<Rightarrow> (bool \<times> nat) list"
  ln_bytes :: "nat \<Rightarrow> bytes"
  ln_finished :: "nat \<Rightarrow> bool"
  ln_dgrams :: "nat \<Rightarrow> bytes list"
  ln_closed :: "nat list"

definition loop_open :: "bool \<Rightarrow> loop_conn \<Rightarrow> loop_net \<Rightarrow> nat \<times> loop_net" where
  "loop_open kind c w =
     (ln_next w, w\<lparr>ln_next := ln_next w + 2,
        ln_streams := (ln_streams w)(lc_link c := ln_streams w (lc_link c) @ [(kind, ln_next w)]),
        ln_bytes := (ln_bytes w)(ln_next w := []), ln_finished := (ln_finished w)(ln_next w := False)\<rparr>)"

definition loop_accept :: "bool \<Rightarrow> loop_conn \<Rightarrow> loop_net \<Rightarrow> (nat \<times> loop_net) option" where
  "loop_accept kind c w =
     (case filter (\<lambda>x. fst x = kind) (ln_streams w (lc_link c)) of
        [] \<Rightarrow> None
      | x # _ \<Rightarrow> Some (snd x, w\<lparr>ln_streams := (ln_streams w)(lc_link c := remove1 x (ln_streams w (lc_link c)))\<rparr>))"

definition loop_read :: "nat \<Rightarrow> nat \<Rightarrow> loop_net \<Rightarrow> loop_net" where
  "loop_read r n w = w\<lparr>ln_bytes := (ln_bytes w)(r := drop n (ln_bytes w r))\<rparr>"

definition loop_conn_api :: "(loop_net, loop_conn, nat, nat, u64, unit, string, 32 byte_array) conn_api" where
  "loop_conn_api =
     \<lparr>conn_paths = (\<lambda>_ _. []),
      ss_write_all = (\<lambda>s bs w. Some (Inr (), w\<lparr>ln_bytes := (ln_bytes w)(s := ln_bytes w s @ bs)\<rparr>)),
      ss_finish = (\<lambda>s w. (Inr (), w\<lparr>ln_finished := (ln_finished w)(s := True)\<rparr>)),
      ss_set_priority = (\<lambda>_ _ w. (Inr (), w)), ss_priority = (\<lambda>_ _. Inr 0),
      ss_reset = (\<lambda>_ _ w. (Inr (), w)), ss_stopped = (\<lambda>_ w. None), ss_id = of_nat,
      rs_read = (\<lambda>r buf w.
        let n = min (length buf) (length (ln_bytes w r)) in
        if n = 0 then (if ln_finished w r then Some ((Inr None, buf), w) else None)
        else Some ((Inr (Some n), take n (ln_bytes w r) @ drop n buf), loop_read r n w)),
      rs_read_exact = (\<lambda>r buf w.
        let n = length buf in
        if n \<le> length (ln_bytes w r) then Some ((Inr (), take n (ln_bytes w r)), loop_read r n w)
        else if ln_finished w r then Some ((Inl (), buf), w) else None),
      rs_read_to_end = (\<lambda>r lim w.
        if \<not> ln_finished w r then None
        else if length (ln_bytes w r) \<le> lim then Some (Inr (ln_bytes w r), w\<lparr>ln_bytes := (ln_bytes w)(r := [])\<rparr>)
        else Some (Inl (), w)),
      rs_stop = (\<lambda>_ _ w. (Inr (), w)), rs_id = of_nat,
      varint_from_u64 = (\<lambda>c. if unat c < 2 ^ 62 then Inr c else Inl ()), varint_into_u64 = (\<lambda>c. c),
      st_err = (\<lambda>_. ''stream error''),
      cn_open_bi = (\<lambda>c w. case loop_open True c w of (n, w') \<Rightarrow> Some (Inr (n, n + 1), w')),
      cn_accept_bi = (\<lambda>c w. map_option (\<lambda>(n, w'). (Inr (n + 1, n), w')) (loop_accept True c w)),
      cn_open_uni = (\<lambda>c w. case loop_open False c w of (n, w') \<Rightarrow> Some (Inr n, w')),
      cn_accept_uni = (\<lambda>c w. map_option (\<lambda>(n, w'). (Inr n, w')) (loop_accept False c w)),
      cn_send_datagram_wait = (\<lambda>c d w.
        Some (Inr (), w\<lparr>ln_dgrams := (ln_dgrams w)(lc_link c := ln_dgrams w (lc_link c) @ [d])\<rparr>)),
      cn_send_datagram = (\<lambda>c d w.
        (Inr (), w\<lparr>ln_dgrams := (ln_dgrams w)(lc_link c := ln_dgrams w (lc_link c) @ [d])\<rparr>)),
      cn_read_datagram = (\<lambda>c w.
        case ln_dgrams w (lc_link c) of
          [] \<Rightarrow> None
        | d # ds \<Rightarrow> Some (Inr d, w\<lparr>ln_dgrams := (ln_dgrams w)(lc_link c := ds)\<rparr>)),
      cn_max_datagram_size = (\<lambda>_ _. Some 1200), cn_close = (\<lambda>_ _ _ w. w), cn_closed = (\<lambda>_ _. None),
      cn_close_reason = (\<lambda>_ _. None), cn_remote_id = lc_peer, cn_alpn = lc_alpn, cn_stable_id = lc_link,
      cn_err_to_string = (\<lambda>e. case e of LocallyClosed \<Rightarrow> ''closed by us'' | ApplicationClosed s \<Rightarrow> s
        | ConnectionClosed s \<Rightarrow> s | OtherConnectionError s \<Rightarrow> s)\<rparr>"

definition loop_port :: "loop_ep \<Rightarrow> u16" where
  "loop_port e = of_nat (4000 + le_num e)"

definition loop_bind :: "demo_builder \<Rightarrow> loop_net \<Rightarrow> loop_ep \<times> loop_net" where
  "loop_bind b w =
     (\<lparr>le_num = ln_next w,
       le_key = (case bv_secret b of Some k \<Rightarrow> k | None \<Rightarrow> array_of (replicate 32 (of_nat (ln_next w)))),
       le_alpns = bv_alpns b, le_lookups = bv_lookup b\<rparr>,
      w\<lparr>ln_next := ln_next w + 1, ln_incoming := (ln_incoming w)(ln_next w := []),
        ln_closed := filter (\<lambda>n. n \<noteq> ln_next w) (ln_closed w)\<rparr>)"

text \<open>A dial finds the first endpoint being accepted on that has the key, the protocol and the address.\<close>

definition loop_connect :: "loop_ep \<Rightarrow> demo_addr \<Rightarrow> bytes \<Rightarrow> loop_net \<Rightarrow> (unit + loop_conn) \<times> loop_net" where
  "loop_connect e a p w =
     (case List.find (\<lambda>l. le_key l = fst a \<and> p \<in> set (le_alpns l) \<and> Ip (loopback_v4 (loop_port l)) |\<in>| snd a) (ln_listening w) of
        None \<Rightarrow> (Inl (), w)
      | Some l \<Rightarrow>
          let n = ln_next w in
          (Inr \<lparr>lc_link = n, lc_alpn = p, lc_peer = le_key l\<rparr>,
           w\<lparr>ln_next := n + 1, ln_streams := (ln_streams w)(n := []), ln_dgrams := (ln_dgrams w)(n := []),
             ln_incoming := (ln_incoming w)(le_num l := ln_incoming w (le_num l) @ [\<lparr>lc_link = n, lc_alpn = p, lc_peer = le_key e\<rparr>])\<rparr>))"

definition loop_ep_api ::
  "(loop_net, loop_ep, loop_conn, loop_conn, loop_conn, demo_builder, 32 byte_array, 32 byte_array, demo_addr, unit) ep_api" where
  "loop_ep_api =
     \<lparr>ep_bind = (\<lambda>b w. case loop_bind b w of (e, w') \<Rightarrow> Some (Inr e, w')),
      ep_online = (\<lambda>_ w. Some ((), w)), ep_spawn_online = (\<lambda>_ w. w), ep_id = le_key, ep_secret_key = le_key,
      ep_addr = (\<lambda>e w. (le_key e, {|Ip (loopback_v4 (loop_port e))|})),
      ep_connect = (\<lambda>e a p w. Some (loop_connect e a p w)), addr_of_pk = (\<lambda>k. (k, {||})),
      ep_accept = (\<lambda>e w.
        case ln_incoming w (le_num e) of
          [] \<Rightarrow> if le_num e \<in> set (ln_closed w) then Some (None, w) else None
        | c # cs \<Rightarrow> Some (Some c, w\<lparr>ln_incoming := (ln_incoming w)(le_num e := cs)\<rparr>)),
      inc_accept = (\<lambda>i w. (Inr i, w)), acc_await = (\<lambda>a w. Some (Inr a, w)),
      ep_close = (\<lambda>e w. Some ((), w\<lparr>ln_closed := le_num e # ln_closed w\<rparr>)),
      ep_is_closed = (\<lambda>e w. le_num e \<in> set (ln_closed w)), ep_set_alpns = (\<lambda>_ _ w. w),
      ep_network_change = (\<lambda>_ w. Some ((), w)), ep_err = (\<lambda>_. ''endpoint error''), ep_err_debug = (\<lambda>_. ''Error'')\<rparr>"

definition loop_info_api ::
  "(loop_net, loop_ep, 32 byte_array, demo_addr, string, unit, unit, 32 byte_array) info_api" where
  "loop_info_api =
     \<lparr>ep_watch_addr = (\<lambda>_ _. ()), wt_updated = (\<lambda>_ w. None), wt_get = (\<lambda>_ _. (demo_key, {||})),
      ep_home_relay_status = (\<lambda>_ _. []), ep_bound_sockets = (\<lambda>e _. [any_v4 (loop_port e)]),
      ep_remote_info = (\<lambda>_ k w. Some (Some k, w)), ri_id = id, ri_into_addrs = (\<lambda>_. []),
      ta_to_string = (\<lambda>_. ''other'')\<rparr>"

definition loop_spawn :: "loop_ep \<Rightarrow> loop_net \<Rightarrow> loop_net" where
  "loop_spawn e w = w\<lparr>ln_listening := e # ln_listening w\<rparr>"


section \<open>Its laws\<close>

definition loop_quiet :: "loop_conn \<Rightarrow> loop_conn \<Rightarrow> loop_net \<Rightarrow> bool" where
  "loop_quiet a b w \<longleftrightarrow> lc_link a = lc_link b \<and> ln_streams w (lc_link a) = [] \<and> ln_dgrams w (lc_link a) = []"

definition loop_opened :: "bool \<Rightarrow> loop_conn \<Rightarrow> loop_conn \<Rightarrow> nat \<Rightarrow> bytes \<Rightarrow> loop_net \<Rightarrow> bool" where
  "loop_opened kind a b s bs w \<longleftrightarrow>
     lc_link a = lc_link b \<and> ln_streams w (lc_link a) = [(kind, s)] \<and> ln_dgrams w (lc_link a) = [] \<and> ln_bytes w s = bs"

definition loop_finished :: "bool \<Rightarrow> loop_conn \<Rightarrow> loop_conn \<Rightarrow> bytes \<Rightarrow> loop_net \<Rightarrow> bool" where
  "loop_finished kind a b bs w \<longleftrightarrow> (\<exists>s. loop_opened kind a b s bs w \<and> ln_finished w s)"

definition loop_readable :: "loop_conn \<Rightarrow> loop_conn \<Rightarrow> nat \<Rightarrow> bytes \<Rightarrow> loop_net \<Rightarrow> bool" where
  "loop_readable a b r bs w \<longleftrightarrow> loop_quiet a b w \<and> ln_bytes w r = bs \<and> ln_finished w r"

lemmas loop_defs = loop_conn_api_def loop_ep_api_def loop_info_api_def loop_open_def loop_accept_def
  loop_quiet_def loop_opened_def loop_finished_def loop_readable_def loop_bind_def loop_connect_def loop_spawn_def


lemma loop_datagram_law: "datagram_law loop_conn_api loop_quiet"
  by (auto simp: datagram_law_def loop_defs)

lemma loop_identity: "identity_law demo_keys loop_ep_api" "bind_law (\<lambda>b. b) loop_ep_api"
  by (auto simp: identity_law_def bind_law_def loop_ep_api_def demo_keys_def loop_bind_def split: option.splits)

definition loop_fresh :: "loop_ep \<Rightarrow> loop_net \<Rightarrow> bool" where
  "loop_fresh e w \<longleftrightarrow> ln_incoming w (le_num e) = []"

lemma loop_host_law:
  "host_law demo_builder_api (\<lambda>b. b) loop_ep_api loop_info_api loop_fresh le_alpns le_lookups"
  unfolding host_law_def by (intro conjI allI impI; auto simp: loop_defs loop_fresh_def)

lemma loop_port_any: "any_v4 p = any_v4 q \<longleftrightarrow> p = q"
  by (simp add: any_v4_def)

lemma loop_dial_law:
  "dial_law demo_addr_api loop_ep_api loop_info_api loop_spawn loop_fresh le_alpns loop_quiet"
  unfolding dial_law_def
  by (auto simp: loop_defs loop_fresh_def loop_port_any demo_addr_api_def Let_def)

section \<open>Properties\<close>




end
