(* ===== verification/Crate_Tests.thy ===== *)
theory Crate_Tests
  imports Loopback
begin

text \<open>
  The crate's own test modules (endpoint.rs, crypto.rs, endpoint_addr.rs) as programs: a
  test returns on the right or panics on the left.  The theorems say which tests pass on
  every library that keeps its documented laws, and for the tests that pin down values of
  Ed25519 itself, exactly what they ask of the library.
\<close>

unbundle bit_operations_syntax

section \<open>Assertions\<close>

text \<open>\<^verbatim>\<open>expect\<close> and \<^verbatim>\<open>unwrap\<close> panic on an error, \<^verbatim>\<open>assert!\<close> and \<^verbatim>\<open>assert_eq!\<close> on a condition that fails.\<close>

definition expect :: "string \<Rightarrow> 'e + 'a \<Rightarrow> string + 'a" where
  "expect msg r = map_err (\<lambda>_. msg) r"

definition expect_some :: "string \<Rightarrow> 'a option \<Rightarrow> string + 'a" where
  "expect_some msg x = (case x of None \<Rightarrow> Inl msg | Some y \<Rightarrow> Inr y)"

definition assert_that :: "bool \<Rightarrow> string + unit" where
  "assert_that b = (if b then Inr () else Inl ''assertion failed'')"

lemma assert_simps [simp]:
  "expect msg (Inr x) = Inr x" "expect_some msg (Some x) = Inr x"
  "assert_that b = Inr () \<longleftrightarrow> b" "assert_that True = Inr ()"
  "res_bind (assert_that b) k = Inr y \<longleftrightarrow> b \<and> k () = Inr y"
  by (simp_all add: expect_def expect_some_def assert_that_def)

lemma expect_eq_Inr [simp]: "expect msg r = Inr x \<longleftrightarrow> r = Inr x"
  by (simp add: expect_def result_simps)

section \<open>Hexadecimal literals\<close>

text \<open>
  \<^verbatim>\<open>u8::from_str_radix\<close>: an optional plus sign, then at least one digit, without overflow.
  \<^verbatim>\<open>hex_decode\<close> of the test modules cuts its argument into pairs and panics (\<open>None\<close>) on a pair
  that is not a number or cut short.
\<close>

fun radix_loop :: "nat \<Rightarrow> nat \<Rightarrow> string \<Rightarrow> nat option" where
  "radix_loop radix acc [] = Some acc"
| "radix_loop radix acc (c # cs) =
     (case to_digit radix c of
        None \<Rightarrow> None
      | Some d \<Rightarrow> if 255 < acc * radix + d then None else radix_loop radix (acc * radix + d) cs)"

definition u8_from_str_radix :: "string \<Rightarrow> nat \<Rightarrow> u8 option" where
  "u8_from_str_radix src radix =
     (case src of
        [] \<Rightarrow> None
      | c # cs \<Rightarrow> map_option of_nat (radix_loop radix 0 (if c = CHR ''+'' \<and> cs \<noteq> [] then cs else src)))"

fun hex_decode :: "string \<Rightarrow> bytes option" where
  "hex_decode [] = Some []"
| "hex_decode [c] = None"
| "hex_decode (c # d # s) =
     do { b \<leftarrow> u8_from_str_radix [c, d] 16; bs \<leftarrow> hex_decode s; Some (b # bs) }"

fun hex_encode :: "bytes \<Rightarrow> string" where
  "hex_encode [] = []"
| "hex_encode (b # bs) = digit_char (unat b div 16) # digit_char (unat b mod 16) # hex_encode bs"

section \<open>\<^verbatim>\<open>crypto.rs\<close>\<close>

definition check_vector :: "('pk, 'sk, 'sig, 'kerr) key_api \<Rightarrow> bytes \<Rightarrow> bytes \<Rightarrow> bytes \<Rightarrow> bytes \<Rightarrow> string + unit" where
  "check_vector K secret public message signature =
     res_bind (expect ''public_from_secret'' (ed25519_public_from_secret K secret)) (\<lambda>p.
     res_bind (assert_that (p = public)) (\<lambda>_.
     res_bind (expect ''sign'' (ed25519_sign K secret message)) (\<lambda>sig.
     res_bind (assert_that (sig = signature)) (\<lambda>_.
     assert_that (ed25519_verify K public message sig)))))"

definition hex_literal :: "string \<Rightarrow> string + bytes" where
  "hex_literal s = expect_some ''unwrap'' (hex_decode s)"

definition rfc8032_test1 :: "('pk, 'sk, 'sig, 'kerr) key_api \<Rightarrow> string + unit" where
  "rfc8032_test1 K =
     res_bind (hex_literal ''9d61b19deffd5a60ba844af492ec2cc44449c5697b326919703bac031cae7f60'') (\<lambda>secret.
     res_bind (hex_literal ''d75a980182b10ab7d54bfed3c964073a0ee172f3daa62325af021a68f707511a'') (\<lambda>public.
     res_bind (hex_literal
       ''e5564300c360ac729086e2cc806e828a84877f1eb8e5d974d873e065224901555fb8821590a33bacc61e39701cf9b46bd25bf5f0595bbe24655141438e7a100b'') (\<lambda>signature.
     check_vector K secret public [] signature)))"

definition rfc8032_test2 :: "('pk, 'sk, 'sig, 'kerr) key_api \<Rightarrow> string + unit" where
  "rfc8032_test2 K =
     res_bind (hex_literal ''4ccd089b28ff96da9db6c346ec114e0f5b8a319f35aba624da8cf6ed4fb8a6fb'') (\<lambda>secret.
     res_bind (hex_literal ''3d4017c3e843895a92b70aa74d1b7ebc9c982ccf2ec4968cc0cd55f12af4660c'') (\<lambda>public.
     res_bind (hex_literal ''72'') (\<lambda>message.
     res_bind (hex_literal
       ''92a009a9f0d4cab8720e820b5f642540a2b27b5416503f8fb3762223ebdb69da085ac1e43e15996e458f3613d0f11d8c387b2eaeb4302aeeb00d291612bb0c00'') (\<lambda>signature.
     check_vector K secret public message signature))))"

definition rfc8032_test3 :: "('pk, 'sk, 'sig, 'kerr) key_api \<Rightarrow> string + unit" where
  "rfc8032_test3 K =
     res_bind (hex_literal ''c5aa8df43f9f837bedb7442f31dcb7b166d38535076f094b85ce3a2e0b4458f7'') (\<lambda>secret.
     res_bind (hex_literal ''fc51cd8e6218a1a38da47ed00230f0580816ed13ba3303ac5deb911548908025'') (\<lambda>public.
     res_bind (hex_literal ''af82'') (\<lambda>message.
     res_bind (hex_literal
       ''6291d657deec24024827e69c3abe01a30ce548a284743a445e3680d7db5ac3ac18ff9b538d16f290ae67f760984dc6594a7c15e9716ed28dc027beceea1ec40a'') (\<lambda>signature.
     check_vector K secret public message signature))))"

text \<open>\<^verbatim>\<open>v[0] ^= 0x01\<close>, which panics on an empty vector.\<close>

definition flip_first :: "bytes \<Rightarrow> string + bytes" where
  "flip_first v = (if v = [] then Inl ''index out of bounds'' else Inr (v[0 := v ! 0 XOR 1]))"




section \<open>\<^verbatim>\<open>endpoint_addr.rs\<close>\<close>

definition endpoint_addr_iroh_roundtrip ::
  "('pk, 'sk, 'sig, 'kerr) key_api \<Rightarrow> ('pk, 'url, 'o, 'addr, 'ticket, 'aerr) addr_api \<Rightarrow> string + unit" where
  "endpoint_addr_iroh_roundtrip K A =
     (let id = pk_to_string K (sk_public K (sk_from_bytes K (array_of (replicate 32 9))));
          addr = \<lparr>ea_id = id, ea_relay_url = Some ''https://relay.example.com./'',
                  ea_direct_addresses = [''127.0.0.1:1234'', ''[::1]:5678'']\<rparr> in
      res_bind (expect ''try_into'' (EndpointAddr_try_into K A addr)) (\<lambda>iroh_addr.
      res_bind (assert_that (pk_to_string K (addr_id A iroh_addr) = id)) (\<lambda>_.
      res_bind (assert_that (length (addr_relay_urls A iroh_addr) = 1)) (\<lambda>_.
      res_bind (assert_that (length (addr_ip_addrs A iroh_addr) = 2)) (\<lambda>_.
      let roundtripped = EndpointAddr_from K A iroh_addr in
      res_bind (assert_that (ea_id roundtripped = ea_id addr)) (\<lambda>_.
      res_bind (assert_that (ea_relay_url roundtripped = ea_relay_url addr)) (\<lambda>_.
      let expected = sort (ea_direct_addresses addr);
          got = sort (ea_direct_addresses roundtripped) in
      assert_that (got = expected))))))))"

section \<open>\<^verbatim>\<open>endpoint.rs\<close>\<close>

text \<open>An awaited call and its \<^verbatim>\<open>expect\<close>, and an assertion in an async test.\<close>

definition await_expect :: "string \<Rightarrow> ('w, 'e + 'a) async \<Rightarrow> ('w, string + 'a) async" where
  "await_expect msg act = await_map act (expect msg)"

definition check_now :: "bool \<Rightarrow> ('w, string + unit) async" where
  "check_now b = ready (assert_that b)"

definition await_unit :: "('w, unit) async \<Rightarrow> ('w, string + unit) async" where
  "await_unit act = await_map act Inr"











definition sign_and_verify_roundtrip ::
  "('pk, 'sk, 'sig, 'kerr) key_api \<Rightarrow> ('pk, 'url, 'o, 'addr, 'ticket, 'aerr) addr_api \<Rightarrow>
   ('b, 'url, 'sk, 'berr) builder_api \<Rightarrow> ('w, 'ep, 'conn, 'inc, 'acc, 'b, 'pk, 'sk, 'addr, 'e) ep_api \<Rightarrow>
   ('w, string + unit) async" where
  "sign_and_verify_roundtrip K A B E =
     (let secret_key = replicate 32 7 in
      await_try (await_expect ''bind'' (IrohEndpoint_bind K A B E [''test/sign''] (Some secret_key))) (\<lambda>endpoint.
      let id = IrohEndpoint_id K E endpoint;
          data = as_bytes ''hello invitations'';
          sig = IrohEndpoint_sign K E endpoint data in
      await_try (check_now (length sig = 64)) (\<lambda>_.
      await_try (check_now (verify_signature K id data sig)) (\<lambda>_.
      await_try (ready (flip_first sig)) (\<lambda>bad_sig.
      await_try (check_now (\<not> verify_signature K id data bad_sig)) (\<lambda>_.
      await_unit (IrohEndpoint_shutdown E endpoint)))))))"

definition ticket_bytes_roundtrip_test ::
  "('pk, 'sk, 'sig, 'kerr) key_api \<Rightarrow> ('pk, 'url, 'o, 'addr, 'ticket, 'aerr) addr_api \<Rightarrow> string + unit" where
  "ticket_bytes_roundtrip_test K A =
     (let key = sk_public K (sk_from_bytes K (array_of (replicate 32 3)));
          addr = addr_from_parts A key [];
          ticket = ticket_to_string A (ticket_new A addr) in
      res_bind (expect ''ticket_bytes'' (ticket_bytes A ticket)) (\<lambda>bytes.
      res_bind (expect ''ticket_from_bytes'' (ticket_from_bytes A bytes)) (\<lambda>roundtripped.
      assert_that (roundtripped = ticket))))"

definition endpoint_rfc8032_test1 :: "('pk, 'sk, 'sig, 'kerr) key_api \<Rightarrow> string + unit" where
  "endpoint_rfc8032_test1 K =
     res_bind (hex_literal ''9d61b19deffd5a60ba844af492ec2cc44449c5697b326919703bac031cae7f60'') (\<lambda>seed.
     res_bind (expect ''unwrap'' (slice_to_array seed)) (\<lambda>seed.
     res_bind (hex_literal ''d75a980182b10ab7d54bfed3c964073a0ee172f3daa62325af021a68f707511a'') (\<lambda>expected_pub.
     res_bind (hex_literal
       (''e5564300c360ac729086e2cc806e828a84877f1eb8e5d974d873e065224901'' @
        ''555fb8821590a33bacc61e39701cf9b46bd25bf5f0595bbe24655141438e7a100b'')) (\<lambda>expected_sig.
     let secret = sk_from_bytes K seed in
     res_bind (assert_that (to_vec (pk_as_bytes K (sk_public K secret)) = expected_pub)) (\<lambda>_.
     let sig = sk_sign K secret [] in
     res_bind (assert_that (to_vec (sig_to_bytes K sig) = expected_sig)) (\<lambda>_.
     let endpoint_id_hex = pk_to_string K (sk_public K secret) in
     assert_that (verify_signature K endpoint_id_hex [] expected_sig)))))))"

section \<open>Running the tests\<close>

lemma await_expect_ok [simp]: "act w = Some (Inr x, w') \<Longrightarrow> await_expect msg act w = Some (Inr x, w')"
  by (simp add: await_expect_def)

lemma check_now_ok [simp]: "b \<Longrightarrow> check_now b w = Some (Inr (), w)"
  by (simp add: check_now_def assert_that_def)

lemma await_unit_ok [simp]: "act w = Some ((), w') \<Longrightarrow> await_unit act w = Some (Inr (), w')"
  by (simp add: await_unit_def)

text \<open>Binding with valid options to the default sockets of a host.\<close>

lemma bind_default:
  assumes B: "builder_laws B view bind_err set_bind" and H: "host_law B view E I fresh alpns_of lookups"
    and relay: "is_ok (relay_of A (opt_relay_mode opts))" and secret: "secret_of K (opt_secret_key opts) = Inr secret"
    and none: "opt_bind_addr opts = None" "opt_external_addrs opts = None"
  obtains ep w' port rest where
    "IrohEndpoint_bind_with K A B E opts w =
       Some (Inr \<lparr>ie_inner = ep\<rparr>, if opt_warm_up_online opts then ep_spawn_online E ep w' else w')"
    "\<exists>b. ep_bind E b w = Some (Inr ep, w')"
    "fresh ep w'" "\<not> ep_is_closed E ep w'" "alpns_of ep = map as_bytes (opt_alpns opts)"
    "lookups ep = (if opt_address_lookup opts then bv_lookup (view (n0_apply B (b_empty B))) else [])"
    "secret \<noteq> None \<longrightarrow> secret = Some (ep_secret_key E ep)" "ep_bound_sockets I ep w' = any_v4 port # rest"
proof -
  let ?preset = "view (n0_apply B (b_empty B))"
  obtain r where r: "relay_of A (opt_relay_mode opts) = Inr r" using relay by (auto simp: is_ok_iff)
  have config: "options_config K A (b_err B) bind_err set_bind ?preset opts =
      Inr \<lparr>bv_relay = r, bv_lookup = (if opt_address_lookup opts then bv_lookup ?preset else []), bv_secret = secret,
           bv_alpns = map as_bytes (opt_alpns opts), bv_bind = bv_bind ?preset, bv_external = []\<rparr>"
    by (simp add: options_config_def r secret none bind_of_def external_of_def)
  obtain b where b: "builder_from_options K A B opts = Inr b"
    and view: "view b = \<lparr>bv_relay = r, bv_lookup = (if opt_address_lookup opts then bv_lookup ?preset else []),
      bv_secret = secret, bv_alpns = map as_bytes (opt_alpns opts), bv_bind = bv_bind ?preset, bv_external = []\<rparr>"
    using builder_refines [OF B, of K A opts] config by (cases "builder_from_options K A B opts") auto
  have "bv_bind (view b) = bv_bind ?preset" by (simp add: view)
  from host_law_bind [OF H this, of w] obtain ep w' port rest where ep: "ep_bind E b w = Some (Inr ep, w')"
    "fresh ep w'" "\<not> ep_is_closed E ep w'" "alpns_of ep = bv_alpns (view b)" "lookups ep = bv_lookup (view b)"
    "bv_secret (view b) \<noteq> None \<longrightarrow> bv_secret (view b) = Some (ep_secret_key E ep)"
    "ep_bound_sockets I ep w' = any_v4 port # rest" by blast
  show thesis
    by (rule that [of ep w' port rest]) (use b ep in \<open>auto simp: view IrohEndpoint_bind_with_def Let_def\<close>)
qed









text \<open>Closing an endpoint at the end of a test.\<close>

lemma shutdown_ok:
  assumes "host_law B view E I fresh alpns_of lookups"
  shows "\<exists>w'. IrohEndpoint_shutdown E ep w = Some ((), w')"
  using host_lawD(3) [OF assms] by (simp add: IrohEndpoint_shutdown_def)





lemma u8_from_str_radix_digits:
  assumes "hi < 16" "lo < 16"
  shows "u8_from_str_radix [digit_char hi, digit_char lo] 16 = Some (of_nat (hi * 16 + lo))"
proof -
  have "digit_char hi \<noteq> CHR ''+''" using assms(1) digit_char_neq [of hi "CHR ''+''"] by (auto simp: to_digit_def)
  with assms show ?thesis by (simp add: u8_from_str_radix_def to_digit_digit_char)
qed

lemma hex_decode_length: "hex_decode s = Some bs \<Longrightarrow> length s = 2 * length bs"
  by (induction s arbitrary: bs rule: hex_decode.induct) (auto simp: bind_eq_Some_conv)

text \<open>What a test vector asks of the library: the key pair and the signature; verification follows.\<close>

lemma check_vector_iff:
  assumes "key_laws K"
  shows "check_vector K secret public message signature = Inr () \<longleftrightarrow>
     ed25519_public_from_secret K secret = Inr public \<and> ed25519_sign K secret message = Inr signature"
proof -
  have "ed25519_verify K public message signature"
    if "ed25519_public_from_secret K secret = Inr public" "ed25519_sign K secret message = Inr signature"
    using raw_sig.verify_sign [OF assms that(2,1)] .
  then show ?thesis by (auto simp: check_vector_def result_simps)
qed

lemma flip_first_ok: "v \<noteq> [] \<Longrightarrow> flip_first v = Inr (v[0 := v ! 0 XOR 1])"
  by (simp add: flip_first_def)

definition vector_holds ::
  "('pk, 'sk, 'sig, 'kerr) key_api \<Rightarrow> string \<Rightarrow> string \<Rightarrow> bytes \<Rightarrow> string \<Rightarrow> bool" where
  "vector_holds K secret_hex public_hex message signature_hex \<longleftrightarrow>
     (\<exists>secret public signature. hex_decode secret_hex = Some secret \<and> hex_decode public_hex = Some public \<and>
        hex_decode signature_hex = Some signature \<and> ed25519_public_from_secret K secret = Inr public \<and>
        ed25519_sign K secret message = Inr signature)"

lemma hex_literal_Inr: "hex_literal s = Inr bs \<longleftrightarrow> hex_decode s = Some bs"
  by (simp add: hex_literal_def expect_some_def split: option.splits)

lemma vector_iff:
  assumes "key_laws K"
  shows "res_bind (hex_literal a) (\<lambda>s. res_bind (hex_literal b) (\<lambda>p. res_bind (hex_literal c) (\<lambda>g. check_vector K s p m g))) = Inr ()
     \<longleftrightarrow> vector_holds K a b m c"
  by (auto simp: result_simps hex_literal_Inr check_vector_iff [OF assms] vector_holds_def)

lemma endpoint_vector_iff:
  assumes K: "key_laws K" and seed: "hex_decode a = Some seed" "length seed = 32"
  shows "res_bind (hex_literal a) (\<lambda>seed. res_bind (expect ''unwrap'' (slice_to_array seed)) (\<lambda>seed.
      res_bind (hex_literal b) (\<lambda>expected_pub. res_bind (hex_literal c) (\<lambda>expected_sig.
      let secret = sk_from_bytes K seed in
      res_bind (assert_that (to_vec (pk_as_bytes K (sk_public K secret)) = expected_pub)) (\<lambda>_.
      let sig = sk_sign K secret [] in
      res_bind (assert_that (to_vec (sig_to_bytes K sig) = expected_sig)) (\<lambda>_.
      let endpoint_id_hex = pk_to_string K (sk_public K secret) in
      assert_that (verify_signature K endpoint_id_hex [] expected_sig))))))) = Inr () \<longleftrightarrow> vector_holds K a b [] c"
proof -
  define k :: "32 byte_array" where "k = array_of seed"
  then have k: "seed = to_vec k" using seed(2) by simp
  have verify: "verify_signature K (pk_to_string K (sk_public K s)) m (to_vec (sig_to_bytes K (sk_sign K s m)))" for s m
    by (simp add: verify_signature_def key_lawsD [OF K])
  show ?thesis
    using verify seed(1)
    by (auto simp: result_simps hex_literal_Inr k Let_def vector_holds_def ed25519_public_ok [OF K] ed25519_sign_ok [OF K])
qed

lemma distinct_singleton: "set xs = {x} \<Longrightarrow> distinct xs \<Longrightarrow> xs = [x]"
  by (cases xs; cases "tl xs") (auto simp: insert_eq_iff)

lemma sort_of_mset: "mset xs = mset ys \<Longrightarrow> sort xs = sort (ys :: string list)"
  by (intro properties_for_sort) simp_all

text \<open>The two literal addresses of the address test.\<close>

definition lit_v4 :: SocketAddr where
  "lit_v4 = loopback_v4 1234"

definition lit_v6 :: SocketAddr where
  "lit_v6 = V6 \<lparr>v6_ip = Ipv6Addr 0 0 0 0 0 0 0 1, v6_port = 5678, v6_flowinfo = 0, v6_scope_id = 0\<rparr>"

lemma literals_printed: "SocketAddr_to_string lit_v4 = ''127.0.0.1:1234''" "SocketAddr_to_string lit_v6 = ''[::1]:5678''"
  by (simp_all add: lit_v4_def loopback_v4_def lit_v6_def fmt_ipv6_def fmt_radix_def nat_digits.simps digit_char_def
      char_of_def bit_0)

section \<open>Properties\<close>





text \<open>The tests' \<^verbatim>\<open>hex_decode\<close> inverts hexadecimal printing, and never accepts a text of odd
  length.\<close>

lemma hex_decode_encode: "hex_decode (hex_encode bs) = Some bs \<and> (odd (length s) \<longrightarrow> hex_decode s = None)"
proof
  show "hex_decode (hex_encode bs) = Some bs"
  proof (induction bs)
    case (Cons b bs)
    have "unat b div 16 < 16" using unat_u8_bound [of b] by simp
    then have "u8_from_str_radix [digit_char (unat b div 16), digit_char (unat b mod 16)] 16 = Some b"
      by (simp add: u8_from_str_radix_digits)
    with Cons show ?case by simp
  qed simp
  show "odd (length s) \<longrightarrow> hex_decode s = None" using hex_decode_length [of s] by (cases "hex_decode s") auto
qed



text \<open>The RFC 8032 tests ask the library for exactly the key pairs and signatures of the
  vectors, and nothing else: every literal in them decodes, and the assertions that the
  signatures verify, under the raw key and under the endpoint id, follow from those.\<close>

lemma rfc8032_tests:
  assumes "key_laws K"
  shows "(rfc8032_test1 K = Inr () \<longleftrightarrow> vector_holds K ''9d61b19deffd5a60ba844af492ec2cc44449c5697b326919703bac031cae7f60''
        ''d75a980182b10ab7d54bfed3c964073a0ee172f3daa62325af021a68f707511a'' []
        ''e5564300c360ac729086e2cc806e828a84877f1eb8e5d974d873e065224901555fb8821590a33bacc61e39701cf9b46bd25bf5f0595bbe24655141438e7a100b'') \<and>
     (rfc8032_test2 K = Inr () \<longleftrightarrow> vector_holds K ''4ccd089b28ff96da9db6c346ec114e0f5b8a319f35aba624da8cf6ed4fb8a6fb''
        ''3d4017c3e843895a92b70aa74d1b7ebc9c982ccf2ec4968cc0cd55f12af4660c'' [0x72]
        ''92a009a9f0d4cab8720e820b5f642540a2b27b5416503f8fb3762223ebdb69da085ac1e43e15996e458f3613d0f11d8c387b2eaeb4302aeeb00d291612bb0c00'') \<and>
     (rfc8032_test3 K = Inr () \<longleftrightarrow> vector_holds K ''c5aa8df43f9f837bedb7442f31dcb7b166d38535076f094b85ce3a2e0b4458f7''
        ''fc51cd8e6218a1a38da47ed00230f0580816ed13ba3303ac5deb911548908025'' [0xaf, 0x82]
        ''6291d657deec24024827e69c3abe01a30ce548a284743a445e3680d7db5ac3ac18ff9b538d16f290ae67f760984dc6594a7c15e9716ed28dc027beceea1ec40a'') \<and>
     (endpoint_rfc8032_test1 K = Inr () \<longleftrightarrow> rfc8032_test1 K = Inr ())"
proof -
  have message: "hex_literal ''72'' = Inr [0x72]" "hex_literal ''af82'' = Inr [0xaf, 0x82]"
    by (simp_all add: hex_literal_def u8_from_str_radix_def to_digit_def)
  have "hex_decode ''9d61b19deffd5a60ba844af492ec2cc44449c5697b326919703bac031cae7f60'' \<noteq> None" by (simp add: u8_from_str_radix_def to_digit_def)
  then obtain seed where seed: "hex_decode ''9d61b19deffd5a60ba844af492ec2cc44449c5697b326919703bac031cae7f60'' = Some seed" by blast
  then have seed32: "length seed = 32" using hex_decode_length [OF seed] by simp
  show ?thesis
    using endpoint_vector_iff [OF assms seed seed32]
    by (simp add: rfc8032_test1_def rfc8032_test2_def rfc8032_test3_def endpoint_rfc8032_test1_def message vector_iff [OF assms])
qed

text \<open>The address tests pass on every library that keeps its laws: a record with an id, a relay
  whose URL prints as it was written and two socket addresses becomes an address with one
  relay and two IP addresses, and comes back as the same record up to the order of the
  addresses; and a ticket survives its raw bytes.\<close>

lemma address_tests_pass:
  fixes A :: "('pk, 'url, 'o, 'addr, 'ticket, 'aerr) addr_api"
  assumes "pk_text_law K" "addr_laws A addrs_of" "ticket_laws A"
    and "url_from_str A ''https://relay.example.com./'' = Inr u" "url_to_string A u = ''https://relay.example.com./''"
  shows "endpoint_addr_iroh_roundtrip K A = Inr () \<and> ticket_bytes_roundtrip_test K A = Inr ()"
proof
  let ?k = "sk_public K (sk_from_bytes K (array_of (replicate 32 9)))"
  let ?parts = "[Ip lit_v4, Ip lit_v6, Relay u]"
  let ?a = "addr_from_parts A ?k ?parts"
  have "pk_from_str K (pk_to_string K ?k) = Inr ?k" using assms(1) by (simp add: pk_text_law_def)
  moreover have "push_direct [] [''127.0.0.1:1234'', ''[::1]:5678''] = Inr [Ip lit_v4, Ip lit_v6 :: ('url, 'o) TransportAddr]"
    using push_direct_printed [of "[lit_v4, lit_v6]" "[]"]
    by (simp add: literals_printed lit_v4_def [symmetric] textual_def) (simp add: lit_v4_def lit_v6_def loopback_v4_def)
  ultimately have into: "EndpointAddr_try_into K A \<lparr>ea_id = pk_to_string K ?k, ea_relay_url = Some ''https://relay.example.com./'',
      ea_direct_addresses = [''127.0.0.1:1234'', ''[::1]:5678'']\<rparr> = Inr ?a"
    using assms(4) by (simp add: EndpointAddr_try_into_def del: push_direct.simps)
  have relays: "addr_relay_urls A ?a = [u]" and ips: "mset (addr_ip_addrs A ?a) = mset [lit_v4, lit_v6]"
  proof -
    have members: "addrs_of ?a = {Ip lit_v4, Ip lit_v6, Relay u}" using addr_lawsD(2) [OF assms(2)] by simp
    have "set (addr_relay_urls A ?a) = {u}" using addr_lawsD(3) [OF assms(2), of ?a] members by auto
    then show "addr_relay_urls A ?a = [u]" using addr_lawsD(4) [OF assms(2), of ?a] by (rule distinct_singleton)
    have "set (addr_ip_addrs A ?a) = set [lit_v4, lit_v6]" using addr_lawsD(5) [OF assms(2), of ?a] members by auto
    moreover have "distinct [lit_v4, lit_v6]" by (simp add: lit_v4_def lit_v6_def loopback_v4_def)
    ultimately show "mset (addr_ip_addrs A ?a) = mset [lit_v4, lit_v6]"
      using addr_lawsD(6) [OF assms(2), of ?a] set_eq_iff_mset_eq_distinct by blast
  qed
  have "mset (map SocketAddr_to_string (addr_ip_addrs A ?a)) = mset [''127.0.0.1:1234'', ''[::1]:5678'']"
    using arg_cong [OF ips, of "image_mset SocketAddr_to_string"] by (simp add: literals_printed)
  then have "sort (map SocketAddr_to_string (addr_ip_addrs A ?a)) = sort [''127.0.0.1:1234'', ''[::1]:5678'']"
    by (rule sort_of_mset)
  moreover have "length (addr_ip_addrs A ?a) = 2" using arg_cong [OF ips, of size] by simp
  ultimately show "endpoint_addr_iroh_roundtrip K A = Inr ()"
    using assms(5)
    by (simp add: endpoint_addr_iroh_roundtrip_def Let_def into relays addr_lawsD(1) [OF assms(2)] EndpointAddr_from_def
        iter_next_def)
  show "ticket_bytes_roundtrip_test K A = Inr ()"
    by (simp add: ticket_bytes_roundtrip_test_def Let_def ticket_bytes_def ticket_from_bytes_def ticket_lawsD [OF assms(3)])
qed

text \<open>The endpoint's signing test passes exactly when the library rejects the signature whose
  first byte was changed: binding, signing and verifying succeed by the laws.\<close>

lemma sign_test_iff:
  assumes "key_laws K" "builder_laws B view bind_err set_bind" "host_law B view E I fresh alpns_of lookups" "identity_law K E"
    and "sk = sk_from_bytes K (array_of (replicate 32 7))" "data = as_bytes ''hello invitations''"
    and "sig = to_vec (sig_to_bytes K (sk_sign K sk data))"
  shows "(\<exists>w'. sign_and_verify_roundtrip K A B E w = Some (Inr (), w')) \<longleftrightarrow>
     \<not> verify_signature K (pk_to_string K (sk_public K sk)) data (sig[0 := sig ! 0 XOR 1])"
proof -
  let ?opts = "\<lparr>opt_alpns = [''test/sign''], opt_secret_key = Some (replicate 32 7), opt_relay_mode = None,
    opt_address_lookup = True, opt_bind_addr = None, opt_external_addrs = None, opt_warm_up_online = True\<rparr>"
  have valid: "is_ok (relay_of A (opt_relay_mode ?opts))" "secret_of K (opt_secret_key ?opts) = Inr (Some sk)"
      "opt_bind_addr ?opts = None" "opt_external_addrs ?opts = None"
    by (simp_all add: relay_of_def secret_of_def assms(5))
  obtain ep w1 where ep: "IrohEndpoint_bind_with K A B E ?opts w = Some (Inr \<lparr>ie_inner = ep\<rparr>, w1)" "ep_secret_key E ep = sk"
    by (rule bind_default [OF assms(2,3) valid, where w = w]) auto
  have sign: "IrohEndpoint_sign K E \<lparr>ie_inner = ep\<rparr> data = sig" "IrohEndpoint_id K E \<lparr>ie_inner = ep\<rparr> = pk_to_string K (sk_public K sk)"
    using assms(4) by (simp_all add: IrohEndpoint_sign_def IrohEndpoint_id_def ep(2) assms(7) identity_law_def)
  have sig: "length sig = 64" "verify_signature K (pk_to_string K (sk_public K sk)) data sig"
    by (simp_all add: assms(7) verify_signature_def key_lawsD [OF assms(1)])
  then have "sig \<noteq> []" by auto
  obtain w2 where "IrohEndpoint_shutdown E \<lparr>ie_inner = ep\<rparr> w1 = Some ((), w2)" using shutdown_ok [OF assms(3)] by blast
  with ep(1) sign sig \<open>sig \<noteq> []\<close> show ?thesis
    by (cases "verify_signature K (pk_to_string K (sk_public K sk)) data (sig[0 := sig ! 0 XOR 1])")
      (simp_all add: sign_and_verify_roundtrip_def IrohEndpoint_bind_def Let_def assms(6) [symmetric] flip_first_ok
        check_now_def assert_that_def)
qed

end
