(* ===== verification/Android_Init.thy ===== *)
theory Android_Init
  imports Iroh_Prelude
begin

text \<open>
  android_init.rs: the JNI entry point that hands the process's JavaVM and application
  context to \<^verbatim>\<open>ndk_context\<close>, guarded by a process-wide \<^verbatim>\<open>std::sync::Once\<close>.  The \<^verbatim>\<open>jni\<close> and
  \<^verbatim>\<open>ndk_context\<close> crates are parameters over the state of the JVM; the entry point is a
  function on the \<^verbatim>\<open>Once\<close> and that state.  A panic leaves an \<^verbatim>\<open>extern\<close> function by aborting
  the process, which is the value \<^verbatim>\<open>None\<close>.
\<close>

section \<open>The crates\<close>

record ('env, 'obj, 'vm, 'gref, 'je, 'w) jni_api =
  env_get_java_vm :: "'env \<Rightarrow> 'w \<Rightarrow> 'je + 'vm"
  env_new_global_ref :: "'env \<Rightarrow> 'obj \<Rightarrow> 'w \<Rightarrow> ('je + 'gref) \<times> 'w"
  vm_pointer :: "'vm \<Rightarrow> u64"
  gref_as_raw :: "'gref \<Rightarrow> u64"
  gref_drop :: "'gref \<Rightarrow> 'w \<Rightarrow> 'w"
  ndk_initialize :: "u64 \<Rightarrow> u64 \<Rightarrow> 'w \<Rightarrow> 'w option"

text \<open>
  Their documented behaviour, in terms of the raw references that are live and of the
  context \<^verbatim>\<open>ndk_context\<close> keeps: a new global reference is live and takes no other one
  away; initialisation stores both pointers and panics when done before.
\<close>

definition android_laws ::
  "('env, 'obj, 'vm, 'gref, 'je, 'w) jni_api \<Rightarrow> ('w \<Rightarrow> u64 set) \<Rightarrow> ('w \<Rightarrow> (u64 \<times> u64) option) \<Rightarrow> bool" where
  "android_laws J live ctx \<longleftrightarrow>
     (\<forall>env obj w. ctx (snd (env_new_global_ref J env obj w)) = ctx w \<and>
        live w \<subseteq> live (snd (env_new_global_ref J env obj w))) \<and>
     (\<forall>env obj w g. fst (env_new_global_ref J env obj w) = Inr g \<longrightarrow>
        gref_as_raw J g \<in> live (snd (env_new_global_ref J env obj w))) \<and>
     (\<forall>v c w. ctx w = None \<longrightarrow>
        (\<exists>w'. ndk_initialize J v c w = Some w' \<and> ctx w' = Some (v, c) \<and> live w' = live w)) \<and>
     (\<forall>v c w. ctx w \<noteq> None \<longrightarrow> ndk_initialize J v c w = None) \<and>
     (\<forall>g w. live (gref_drop J g w) = live w - {gref_as_raw J g})"

section \<open>The entry point\<close>

datatype once = Incomplete | Complete

record 'w android =
  INIT :: once
  jvm :: 'w

text \<open>\<^verbatim>\<open>std::mem::forget\<close> takes the value without running its destructor.\<close>

definition mem_forget :: "'a \<Rightarrow> 'w \<Rightarrow> 'w" where
  "mem_forget x w = w"

definition install_body ::
  "('env, 'obj, 'vm, 'gref, 'je, 'w) jni_api \<Rightarrow> 'env \<Rightarrow> 'obj \<Rightarrow> 'w \<Rightarrow> 'w option" where
  "install_body J env context w =
     (case env_get_java_vm J env w of
        Inl _ \<Rightarrow> Some w
      | Inr java_vm \<Rightarrow>
          (case env_new_global_ref J env context w of
             (Inl _, w) \<Rightarrow> Some w
           | (Inr global_ref, w) \<Rightarrow>
               (case ndk_initialize J (vm_pointer J java_vm) (gref_as_raw J global_ref) w of
                  None \<Rightarrow> None
                | Some w \<Rightarrow> Some (mem_forget global_ref w))))"

text \<open>\<^verbatim>\<open>Once::call_once\<close>: the closure runs on the first call only.\<close>

definition call_once :: "('w \<Rightarrow> 'w option) \<Rightarrow> 'w android \<Rightarrow> 'w android option" where
  "call_once f s =
     (case INIT s of
        Complete \<Rightarrow> Some s
      | Incomplete \<Rightarrow> (case f (jvm s) of None \<Rightarrow> None | Some w \<Rightarrow> Some \<lparr>INIT = Complete, jvm = w\<rparr>))"

definition installAndroidContext ::
  "('env, 'obj, 'vm, 'gref, 'je, 'w) jni_api \<Rightarrow> 'env \<Rightarrow> 'obj \<Rightarrow> 'w android \<Rightarrow> 'w android option" where
  "installAndroidContext J env context s = call_once (install_body J env context) s"

text \<open>The app's calls, one after the other.\<close>

fun install_all ::
  "('env, 'obj, 'vm, 'gref, 'je, 'w) jni_api \<Rightarrow> ('env \<times> 'obj) list \<Rightarrow> 'w android \<Rightarrow> 'w android option" where
  "install_all J [] s = Some s"
| "install_all J ((env, context) # calls) s =
     (case installAndroidContext J env context s of None \<Rightarrow> None | Some s' \<Rightarrow> install_all J calls s')"

section \<open>Lemmas\<close>

lemma install_complete [simp]:
  "INIT s = Complete \<Longrightarrow> installAndroidContext J env context s = Some s"
  by (simp add: installAndroidContext_def call_once_def)

lemma install_all_complete: "INIT s = Complete \<Longrightarrow> install_all J calls s = Some s"
  by (induction J calls s rule: install_all.induct) simp_all

lemma install_completes: "installAndroidContext J env context s = Some s' \<Longrightarrow> INIT s' = Complete"
  by (auto simp: installAndroidContext_def call_once_def split: once.splits option.splits)

lemma install_all_Cons:
  "install_all J ((env, context) # calls) s = installAndroidContext J env context s"
  by (auto dest: install_completes simp: install_all_complete split: option.splits)

lemma android_lawsD:
  assumes "android_laws J live ctx"
  shows "env_new_global_ref J env obj w = (r, w') \<Longrightarrow> ctx w' = ctx w"
    and "env_new_global_ref J env obj w = (r, w') \<Longrightarrow> live w \<subseteq> live w'"
    and "env_new_global_ref J env obj w = (Inr g, w') \<Longrightarrow> gref_as_raw J g \<in> live w'"
    and "ctx w = None \<Longrightarrow> \<exists>w'. ndk_initialize J v c w = Some w' \<and> ctx w' = Some (v, c) \<and> live w' = live w"
  using assms unfolding android_laws_def by (metis fst_conv snd_conv)+

text \<open>What the body does in a process whose context is not set, by the outcome of the two JNI calls.\<close>

lemma install_body_cases:
  assumes J: "android_laws J live ctx" and fresh: "ctx w = None"
  shows "\<exists>w'. install_body J env context w = Some w' \<and>
     (case (env_get_java_vm J env w, fst (env_new_global_ref J env context w)) of
        (Inr vm, Inr g) \<Rightarrow> ctx w' = Some (vm_pointer J vm, gref_as_raw J g) \<and> gref_as_raw J g \<in> live w'
      | _ \<Rightarrow> ctx w' = None)"
proof (cases "env_get_java_vm J env w")
  case (Inr vm)
  obtain r w1 where ref: "env_new_global_ref J env context w = (r, w1)"
    by (cases "env_new_global_ref J env context w")
  have "ctx w1 = None" using android_lawsD(1) [OF J ref] fresh by simp
  show ?thesis
  proof (cases r)
    case (Inr g)
    obtain w2 where init: "ndk_initialize J (vm_pointer J vm) (gref_as_raw J g) w1 = Some w2"
      "ctx w2 = Some (vm_pointer J vm, gref_as_raw J g)" "live w2 = live w1"
      using android_lawsD(4) [OF J \<open>ctx w1 = None\<close>] by blast
    moreover have "gref_as_raw J g \<in> live w1" using android_lawsD(3) [OF J] ref Inr by blast
    ultimately show ?thesis
      using \<open>env_get_java_vm J env w = Inr vm\<close> ref Inr by (simp add: install_body_def mem_forget_def)
  qed (use \<open>env_get_java_vm J env w = Inr vm\<close> ref \<open>ctx w1 = None\<close> in \<open>simp add: install_body_def\<close>)
qed (simp add: install_body_def fresh)

section \<open>Properties\<close>

text \<open>
  A small JVM for the witnesses: references are numbered, \<^verbatim>\<open>get_java_vm\<close> answers when the
  environment is valid, a reference can be made to any object but null (0).
\<close>

record demo_jvm =
  dj_live :: "u64 list"
  dj_ctx :: "(u64 \<times> u64) option"

definition demo_jni :: "(bool, nat, unit, u64, unit, demo_jvm) jni_api" where
  "demo_jni =
     \<lparr>env_get_java_vm = (\<lambda>env w. if env then Inr () else Inl ()),
      env_new_global_ref = (\<lambda>env obj w.
        if obj = 0 then (Inl (), w) else (Inr (of_nat obj), w\<lparr>dj_live := of_nat obj # dj_live w\<rparr>)),
      vm_pointer = (\<lambda>_. 7), gref_as_raw = (\<lambda>g. g),
      gref_drop = (\<lambda>g w. w\<lparr>dj_live := filter (\<lambda>x. x \<noteq> g) (dj_live w)\<rparr>),
      ndk_initialize = (\<lambda>v c w. if dj_ctx w = None then Some (w\<lparr>dj_ctx := Some (v, c)\<rparr>) else None)\<rparr>"

definition demo_boot :: "demo_jvm android" where
  "demo_boot = \<lparr>INIT = Incomplete, jvm = \<lparr>dj_live = [], dj_ctx = None\<rparr>\<rparr>"

lemma demo_android_laws: "android_laws demo_jni (\<lambda>w. set (dj_live w)) dj_ctx"
  by (auto simp: android_laws_def demo_jni_def)

text \<open>Only the first call of the entry point takes effect: any further calls, with any
  arguments, leave the process as the first one left it.\<close>

lemma install_first_call_only: "install_all J (first # later) s = install_all J [first] s"
  by (cases first) (simp only: install_all_Cons)

text \<open>C31: When both JNI calls of the first call succeed, the process does not abort, the
  context that \<^verbatim>\<open>ndk_context\<close> keeps is the JavaVM and the reference made by that call, and
  that reference is still live after all later calls (it was not released).\<close>

theorem install_keeps_context_live:
  assumes "android_laws J live ctx" "INIT s = Incomplete" "ctx (jvm s) = None"
    and "env_get_java_vm J env (jvm s) = Inr vm"
    and "fst (env_new_global_ref J env obj (jvm s)) = Inr g"
  shows "\<exists>s'. install_all J ((env, obj) # later) s = Some s' \<and>
     ctx (jvm s') = Some (vm_pointer J vm, gref_as_raw J g) \<and> gref_as_raw J g \<in> live (jvm s')"
  using install_body_cases [OF assms(1,3), of env obj] assms
  by (auto simp only: install_all_Cons installAndroidContext_def call_once_def) auto

theorem install_keeps_context_live_witness:
  "\<exists>s'. install_all demo_jni [(True, 3), (False, 9)] demo_boot = Some s' \<and>
     dj_ctx (jvm s') = Some (7, 3) \<and> 3 \<in> set (dj_live (jvm s'))"
  using install_keeps_context_live
    [OF demo_android_laws, of demo_boot True "()" 3 3 "[(False, 9)]"]
  by (simp add: demo_jni_def demo_boot_def)

text \<open>C37: When a JNI call of the first call fails, the entry point returns without a context
  and no later call can provide one: the \<^verbatim>\<open>Once\<close> is used up.\<close>

theorem install_failure_is_final:
  assumes "android_laws J live ctx" "INIT s = Incomplete" "ctx (jvm s) = None"
    and "is_err (env_get_java_vm J env (jvm s)) \<or> is_err (fst (env_new_global_ref J env obj (jvm s)))"
  shows "\<exists>s'. install_all J ((env, obj) # later) s = Some s' \<and> ctx (jvm s') = None"
  using install_body_cases [OF assms(1,3), of env obj] assms(2,4)
  by (auto simp only: install_all_Cons installAndroidContext_def call_once_def)
    (auto simp: is_err_def split: sum.splits)

theorem install_failure_is_final_witness:
  "\<exists>s'. install_all demo_jni [(False, 3), (True, 9)] demo_boot = Some s' \<and> dj_ctx (jvm s') = None"
  using install_failure_is_final [OF demo_android_laws, of demo_boot False 3 "[(True, 9)]"]
  by (simp add: demo_jni_def demo_boot_def is_err_def)

end
