(* ===== verification/Spec2Isabelle.thy ===== *)
theory Spec2Isabelle
  imports Accept_Tasks Stream_Runs Crate_Tests Android_Init
begin

text \<open>
  \<^bold>\<open>iroh-kmp\<close>: a Rust crate (\<^verbatim>\<open>src/src/commonMain/rust\<close>) that wraps the \<^verbatim>\<open>iroh\<close> peer-to-peer
  library for Kotlin.  It binds an endpoint, dials and accepts connections, opens
  streams on them, converts addresses and tickets to plain records, and signs with raw
  or bound keys.  This development models all of the crate's own code and proves what its
  callers rely on.

  \<^bold>\<open>How the program is modelled.\<close>  Every exported function and method is one definition
  with the name of its type and method (\<open>IrohStream_recv\<close> is \<^verbatim>\<open>IrohStream::recv\<close>).  Structs
  are records, enums datatypes, machine integers words of their width, \<^verbatim>\<open>Result\<close> a sum
  with the error on the left, and \<^verbatim>\<open>?\<close> is \<open>res_bind\<close>.  An \<^verbatim>\<open>async fn\<close> is a function of the state
  of the world with the value and the new state, or \<open>None\<close> when the call never becomes ready
  (\<open>async\<close>, \<open>await_try\<close>, \<open>await_map\<close> of \<open>Iroh_Prelude\<close>).  Strings are their UTF-8 bytes.

  The crates \<^verbatim>\<open>iroh\<close>, \<^verbatim>\<open>iroh-tickets\<close>, \<^verbatim>\<open>tokio\<close>, \<^verbatim>\<open>jni\<close> and \<^verbatim>\<open>ndk_context\<close> are not part of the
  repository.  What the sources call of them are parameters: records of functions
  (\<open>key_api\<close>, \<open>addr_api\<close>, \<open>builder_api\<close>, \<open>stream_api\<close>, \<open>conn_api\<close>, \<open>ep_api\<close>, \<open>info_api\<close>,
  \<open>mutex_api\<close>, \<open>op_api\<close>, \<open>jni_api\<close>), with their documented behaviour as named predicates
  (\<open>key_laws\<close>, \<open>addr_laws\<close>, \<open>ticket_laws\<close>, \<open>builder_laws\<close>, \<open>recv_laws\<close>, \<open>traffic_laws\<close>, \<open>pipe_laws\<close>,
  \<open>mutex_laws\<close>, \<open>accept_law\<close>, \<open>incoming_law\<close>, \<open>closing_law\<close>, \<open>dial_law\<close>, \<open>host_law\<close>, \<open>watch_law\<close> and
  others) that appear as hypotheses.  Every such predicate is shown to hold of a small concrete
  instance (the definitions named \<open>demo_...\<close> and \<open>loop_...\<close>), on which the witnesses run.
  The standard library is modelled where the source uses it: UTF-8 with lossy decoding,
  and \<^verbatim>\<open>SocketAddr\<close> with its parser and printer.

  \<^bold>\<open>Theories.\<close>

  \<^item> \<open>Iroh_Prelude\<close>: integer and byte types, \<^verbatim>\<open>[u8; N]\<close>, results and their \<^verbatim>\<open>collect\<close>, async
    calls; the collections \<open>result_simps\<close> and \<open>async_simps\<close>.
  \<^item> \<open>Rust_Str\<close>: strings, UTF-8, \<^verbatim>\<open>from_utf8_lossy\<close>; the interface \<open>text_codec\<close> of a printer
    and a parser.  \<open>Rust_Net\<close>: \<^verbatim>\<open>SocketAddr\<close>, its order, printer and parser; parsing inverts
    printing.
  \<^item> \<open>Iroh_Error\<close> (error.rs), \<open>Iroh_Keys\<close> (the key types of \<^verbatim>\<open>iroh\<close>).
  \<^item> \<open>Crypto\<close> (crypto.rs): raw-key signing; the interface \<open>signature_scheme\<close>, provided by the
    raw keys here and by a bound endpoint in \<open>Endpoint\<close>.
  \<^item> \<open>Endpoint_Addr\<close> (endpoint_addr.rs and the ticket functions of endpoint.rs): conversions
    between address records, library addresses and tickets: which addresses survive,
    which error is reported, and that order and repetition do not matter.
  \<^item> \<open>Config\<close> (config.rs): options to builder.  \<open>options_config\<close> is the abstract meaning of the
    options; \<open>builder_from_options\<close> refines it step by step.
  \<^item> \<open>Stream\<close> (stream.rs, one call at a time): the three stream objects; the interface
    \<open>recv_half\<close> that both receiving objects provide, with chunked reading against reading
    to the end.
  \<^item> \<open>Stream_Locks\<close> (stream.rs, many calls at once): the per-half mutexes, as a step
    relation over tasks that call, wait, hold a guard, are polled, return or are
    cancelled; mutual exclusion.  \<open>Stream_Traffic\<close>: the bytes such calls move, through the
    interface \<open>half_traffic\<close> that each half provides: the bytes of concurrent sends never
    mix, and concurrent reads split the stream into whole pieces.  \<open>Stream_Runs\<close>: every
    call can finish; the interface \<open>stream_object\<close> and, for each of the three objects, the
    refinement of any interleaving to a sequence of the calls of \<open>Stream\<close>; an
    executable scheduler.
  \<^item> \<open>Connection\<close> (connection.rs): streams and datagrams of a connection, error texts,
    round-trip times, summaries of the paths.
  \<^item> \<open>Endpoint\<close> (endpoint.rs, remote_info.rs): binding, identity, dialing, accepting,
    snapshots.
  \<^item> \<open>Accept_Tasks\<close> (endpoint.rs, accepting): calls one after the other; concurrent
    \<^verbatim>\<open>accept_conn\<close> and \<^verbatim>\<open>accept_next\<close> calls as a step relation over the state machines of the two
    async functions, in which no incoming connection is given to two calls; a call that
    runs alone is the call of \<open>Endpoint\<close>; the accept loop of the documentation ends.
  \<^item> \<open>Delivery\<close> (connection.rs and stream.rs, both ends): the interface \<open>byte_pipe\<close>, provided by
    both kinds of stream: what is sent and finished at one end is what is read at the
    other.  \<open>Loopback\<close>: a network in memory that satisfies its laws.
  \<^item> \<open>Crate_Tests\<close> (the test modules of endpoint.rs, crypto.rs and endpoint_addr.rs): each
    test as a program; the tests of the options and of connections pass on every library
    that keeps its laws, and the Ed25519 vectors are reduced to what they ask of the library.
  \<^item> \<open>Android_Init\<close> (android_init.rs): the process-wide \<^verbatim>\<open>Once\<close> around the JNI set-up.
  \<^item> This theory: properties of an endpoint together with the components it calls.

  \<^bold>\<open>Bounds and fuel.\<close>  The crate's own code has no loop but iteration over lists, which are
  structural recursions without fuel.  The client's accept loop is the \<open>partial_function\<close>
  \<open>accept_all\<close>, \<open>None\<close> while it waits for ever; that it returns once the endpoint is closed is a
  property.  \<open>poll_alone n\<close> polls an accept call at most \<open>n\<close> times; four are enough because the
  call has four states before it returns, one per \<^verbatim>\<open>await\<close> and one before the handshake.
  \<open>drain k\<close> is a
  client that reads at most \<open>k\<close> chunks; the properties that use it take \<open>k\<close> larger than the number
  of bytes left, which suffices because every chunk has at least one byte.
  \<^verbatim>\<open>as u64\<close> casts keep their wrap-around (\<open>ucast\<close>); \<^verbatim>\<open>usize\<close> values are natural numbers.

  \<^bold>\<open>Not modelled.\<close>  The warm-up task's own steps (its spawning is one effect on the world),
  allocation failure for large read buffers, the generated UniFFI bindings and the Kotlin
  helper that calls the JNI entry point, the build, and lib.rs, which has only module
  declarations, re-exports and the UniFFI scaffolding.  In the tests a spawned task runs
  where the test joins it; the runtime's other interleavings of that task are left out.
\<close>

section \<open>Identity of an endpoint\<close>

lemma bind_with_ok:
  assumes "builder_laws B view bind_err set_bind" "bind_law view E"
    and "IrohEndpoint_bind_with K A B E opts w = Some (Inr ep, w')"
    and "opt_secret_key opts = Some bs"
  shows "length bs = 32" "ep_secret_key E (ie_inner ep) = sk_from_bytes K (array_of bs)"
proof -
  obtain b inner w1 where b: "builder_from_options K A B opts = Inr b"
    and bound: "ep_bind E b w = Some (Inr inner, w1)" "ep = \<lparr>ie_inner = inner\<rparr>"
    using assms(3)
    by (auto simp: IrohEndpoint_bind_with_def Let_def async_simps result_simps split: sum.splits)
  have "options_config K A (b_err B) bind_err set_bind (view (n0_apply B (b_empty B))) opts = Inr (view b)"
    using builder_refines [OF assms(1), of K A opts] b by simp
  then obtain secret where secret: "secret_of K (opt_secret_key opts) = Inr secret" "bv_secret (view b) = secret"
    by (cases "view b") (auto simp: options_config_def result_simps)
  with assms(4) show "length bs = 32" by (auto simp: secret_of_def split: if_splits)
  with secret assms(4) have "bv_secret (view b) = Some (sk_from_bytes K (array_of bs))"
    by (simp add: secret_of_def)
  then show "ep_secret_key E (ie_inner ep) = sk_from_bytes K (array_of bs)"
    using assms(2) bound unfolding bind_law_def by (metis IrohEndpoint.select_convs(1))
qed

text \<open>C13: An endpoint bound with the secret key bytes of another one has the same id, the same
  secret key bytes and signs the same, whatever the other options are: persisting the
  key bytes keeps the identity.\<close>

theorem bind_keeps_identity:
  assumes "key_laws K" "builder_laws B view bind_err set_bind" "bind_law view E" "identity_law K E"
    and "opt_secret_key opts = Some (IrohEndpoint_secret_key_bytes K E old)"
    and "IrohEndpoint_bind_with K A B E opts w = Some (Inr new, w')"
  shows "IrohEndpoint_id K E new = IrohEndpoint_id K E old \<and>
     IrohEndpoint_secret_key_bytes K E new = IrohEndpoint_secret_key_bytes K E old \<and>
     IrohEndpoint_sign K E new m = IrohEndpoint_sign K E old m"
proof -
  have "ep_secret_key E (ie_inner new) = ep_secret_key E (ie_inner old)"
    using bind_with_ok(2) [OF assms(2,3,6,5)] key_lawsD(6) [OF assms(1)]
    by (simp add: IrohEndpoint_secret_key_bytes_def to_vec_inverse)
  then show ?thesis
    using assms(4)
    by (simp add: IrohEndpoint_id_def IrohEndpoint_secret_key_bytes_def IrohEndpoint_sign_def identity_law_def)
qed

theorem bind_keeps_identity_witness:
  "\<exists>new w'. IrohEndpoint_bind_with demo_keys demo_addr_api demo_builder_api demo_ep_api
       (demo_options\<lparr>opt_secret_key := Some (IrohEndpoint_secret_key_bytes demo_keys demo_ep_api demo_ep)\<rparr>) demo_world =
       Some (Inr new, w') \<and>
     IrohEndpoint_id demo_keys demo_ep_api new = IrohEndpoint_id demo_keys demo_ep_api demo_ep"
proof -
  let ?opts = "demo_options\<lparr>opt_secret_key := Some (IrohEndpoint_secret_key_bytes demo_keys demo_ep_api demo_ep)\<rparr>"
  obtain b where "builder_from_options demo_keys demo_addr_api demo_builder_api ?opts = Inr b"
    using builder_refines [OF demo_builder_laws, of demo_keys demo_addr_api ?opts]
    by (auto simp: options_config_def demo_options_def relay_of_def secret_of_def bind_of_def external_of_def
        demo_bind_err_def result_simps IrohEndpoint_secret_key_bytes_def)
  then obtain new w' where bound: "IrohEndpoint_bind_with demo_keys demo_addr_api demo_builder_api demo_ep_api ?opts demo_world = Some (Inr new, w')"
    by (simp add: IrohEndpoint_bind_with_def Let_def demo_ep_api_def await_try_def await_map_def)
  from bind_keeps_identity [OF demo_keys_laws demo_builder_laws demo_ep_laws(2,1) _ bound, of demo_ep] bound
  show ?thesis by auto
qed

text \<open>Invalid options make binding fail with the error of the first invalid one before any
  socket is touched; in particular \<^verbatim>\<open>bind\<close> with a secret key of another length than 32 fails
  with the message for it, whatever the protocols.\<close>

lemma bind_invalid_options:
  "(builder_from_options K A B opts = Inl e \<longrightarrow> IrohEndpoint_bind_with K A B E opts w = Some (Inl e, w)) \<and>
   (length bs \<noteq> 32 \<longrightarrow>
      IrohEndpoint_bind K A B E alpns (Some bs) w = Some (Inl (Generic ''secret key must be 32 bytes''), w))"
  by (auto simp: IrohEndpoint_bind_def IrohEndpoint_bind_with_def builder_from_options_def Let_def
      unwrap_or_default_def apply_relay_mode_def apply_secret_key_def slice_to_array_def secret_key_error_def)

text \<open>C14: What an endpoint signs is 64 bytes that \<^verbatim>\<open>verify_signature\<close> accepts under the endpoint's
  id; a signature of another length, or an id that is not a key, is never accepted.\<close>

theorem endpoint_sign_verify:
  assumes "key_laws K" "identity_law K E"
  shows "length (IrohEndpoint_sign K E ep m) = 64 \<and>
     verify_signature K (IrohEndpoint_id K E ep) m (IrohEndpoint_sign K E ep m) \<and>
     (verify_signature K i m g \<longrightarrow> length g = 64 \<and> is_ok (pk_from_str K i))"
proof -
  have "verify_signature K i m g \<longrightarrow> is_ok (pk_from_str K i)"
    by (auto simp: verify_signature_def split: sum.splits)
  then show ?thesis
    using ep_sig.sign_then_verify [of "(K, E)" ep _ m] ep_sig.verify_length [of "(K, E)" i m g] assms by auto
qed

theorem endpoint_sign_verify_witness:
  "verify_signature demo_keys (IrohEndpoint_id demo_keys demo_ep_api demo_ep) [1, 2]
     (IrohEndpoint_sign demo_keys demo_ep_api demo_ep [1, 2])"
  using endpoint_sign_verify [OF demo_keys_laws demo_ep_laws(1)] by simp

text \<open>C27: The raw-key functions and the endpoint agree: signing with the endpoint is signing with
  its secret key bytes, the public key of those bytes is the key its id names, and
  verifying against an id is verifying against the bytes of the key it names.\<close>

theorem raw_and_endpoint_crypto_agree:
  assumes "key_laws K" "identity_law K E"
  shows "ed25519_sign K (IrohEndpoint_secret_key_bytes K E ep) m = Inr (IrohEndpoint_sign K E ep m) \<and>
     (\<exists>p. ed25519_public_from_secret K (IrohEndpoint_secret_key_bytes K E ep) = Inr p \<and>
        verify_signature K (IrohEndpoint_id K E ep) m' g = ed25519_verify K p m' g) \<and>
     verify_signature K (pk_to_string K k) m' g = ed25519_verify K (to_vec (pk_as_bytes K k)) m' g"
proof -
  have verify: "verify_signature K (pk_to_string K k) m' g = ed25519_verify K (to_vec (pk_as_bytes K k)) m' g" for k
    by (simp add: verify_signature_def ed25519_verify_def key_lawsD [OF assms(1)])
  then show ?thesis
    using assms(2)
    by (simp add: IrohEndpoint_secret_key_bytes_def ed25519_sign_ok [OF assms(1)] ed25519_public_ok [OF assms(1)]
        key_lawsD(6) [OF assms(1)] IrohEndpoint_sign_def IrohEndpoint_id_def identity_law_def)
qed

theorem raw_and_endpoint_crypto_agree_witness:
  "ed25519_sign demo_keys (IrohEndpoint_secret_key_bytes demo_keys demo_ep_api demo_ep) [4] =
     Inr (IrohEndpoint_sign demo_keys demo_ep_api demo_ep [4])"
  using raw_and_endpoint_crypto_agree [OF demo_keys_laws demo_ep_laws(1)] by blast

section \<open>Tickets and dialing\<close>

text \<open>C32: The ticket an endpoint hands out names it: decoding it gives the endpoint's id and the
  address record the endpoint reports at that moment, whose direct addresses are the
  ones it lists.\<close>

theorem my_ticket_describes_endpoint:
  assumes "ticket_laws A" "own_addr_law A E" "IrohEndpoint_my_ticket A E ep w = Some (r, w')"
  shows "\<exists>t. r = Inr t \<and> endpoint_id_from_ticket K A t = Inr (IrohEndpoint_id K E ep) \<and>
     endpoint_addr_from_ticket K A t = Inr (IrohEndpoint_addr K A E ep w') \<and>
     ea_direct_addresses (IrohEndpoint_addr K A E ep w') = IrohEndpoint_direct_addresses A E ep w'"
  using assms
  by (auto simp: IrohEndpoint_my_ticket_def endpoint_id_from_ticket_def endpoint_addr_from_ticket_def
      ticket_lawsD own_addr_law_def IrohEndpoint_id_def IrohEndpoint_addr_def IrohEndpoint_direct_addresses_def
      EndpointAddr_from_def bind_eq_Some_conv)

theorem my_ticket_describes_endpoint_witness:
  "\<exists>t w'. IrohEndpoint_my_ticket demo_addr_api demo_ep_api demo_ep demo_world = Some (Inr t, w') \<and>
     endpoint_id_from_ticket demo_keys demo_addr_api t = Inr (IrohEndpoint_id demo_keys demo_ep_api demo_ep)"
proof -
  obtain r w' where "IrohEndpoint_my_ticket demo_addr_api demo_ep_api demo_ep demo_world = Some (r, w')"
    by (simp add: IrohEndpoint_my_ticket_def demo_ep_api_def)
  from my_ticket_describes_endpoint [OF demo_addr_laws(3) demo_ep_laws(3) this, of demo_keys] this
  show ?thesis by auto
qed



text \<open>A ticket, address record or id that does not parse is reported without dialing: the
  call fails and nothing else happens.\<close>

lemma dial_parse_failure_no_effect:
  "(ticket_from_str A t = Inl x \<longrightarrow>
      IrohEndpoint_connect A C E ep t alpn w = Some (Inl (IrohError_msg (addr_err A) x), w) \<and>
      IrohEndpoint_connect_conn A E ep t alpn w = Some (Inl (IrohError_msg (addr_err A) x), w)) \<and>
   (EndpointAddr_try_into K A r = Inl e \<longrightarrow> IrohEndpoint_connect_addr K A E ep r alpn w = Some (Inl e, w)) \<and>
   (pk_from_str K i = Inl y \<longrightarrow>
      IrohEndpoint_connect_by_id K E ep i alpn w = Some (Inl (IrohError_msg (key_err K) y), w) \<and>
      IrohEndpoint_remote_info K A I ep i w = Some (Inl (IrohError_msg (key_err K) y), w))"
  by (simp add: IrohEndpoint_connect_def IrohEndpoint_connect_conn_def IrohEndpoint_connect_addr_def
      IrohEndpoint_connect_by_id_def IrohEndpoint_remote_info_def await_try_def)

text \<open>C20: A connection dialed on a protocol name reports exactly that name, although the name
  travels as bytes and is read back lossily; the stream of a dial that opens one is bound
  to that connection.\<close>

theorem dialed_alpn_reported:
  assumes "alpn_law C E" "utf8_valid alpn"
  shows "(IrohEndpoint_connect_conn A E ep t alpn w = Some (Inr conn, w') \<longrightarrow> IrohConnection_alpn C conn = alpn) \<and>
     (IrohEndpoint_connect_addr K A E ep r alpn w = Some (Inr conn, w') \<longrightarrow> IrohConnection_alpn C conn = alpn) \<and>
     (IrohEndpoint_connect_by_id K E ep i alpn w = Some (Inr conn, w') \<longrightarrow> IrohConnection_alpn C conn = alpn) \<and>
     (IrohEndpoint_connect A C E ep t alpn w = Some (Inr s, w') \<longrightarrow> cn_alpn C (is_conn s) = as_bytes alpn)"
proof -
  have lossy: "from_utf8_lossy (as_bytes alpn) = alpn" using assms(2) by (simp add: from_utf8_lossy_as_bytes)
  have dialed: "cn_alpn C c = as_bytes alpn" if "ep_connect E e a (as_bytes alpn) v = Some (Inr c, v')" for e a v c v'
    using assms(1) that unfolding alpn_law_def by blast
  have conn: "cn_alpn C (ic_inner conn) = as_bytes alpn"
    if "IrohEndpoint_connect_conn A E ep t alpn w = Some (Inr conn, v)" for conn v
    using that dialed
    by (auto simp: IrohEndpoint_connect_conn_def IrohConnection_new_def async_simps result_simps split: sum.splits)
  have "cn_alpn C (is_conn s) = as_bytes alpn" if "IrohEndpoint_connect A C E ep t alpn w = Some (Inr s, w')"
    using that conn
    by (auto simp: IrohEndpoint_connect_def IrohConnection_open_bi_def IrohStream_new_def async_simps result_simps)
  then show ?thesis
    using conn dialed lossy
    by (auto simp: IrohEndpoint_connect_addr_def IrohEndpoint_connect_by_id_def IrohConnection_alpn_def
        IrohConnection_new_def async_simps result_simps split: sum.splits)
qed

theorem dialed_alpn_reported_witness:
  "\<exists>conn w'. IrohEndpoint_connect_by_id demo_keys demo_ep_api demo_ep (pk_to_string demo_keys demo_key) ''azula'' demo_world =
       Some (Inr conn, w') \<and> IrohConnection_alpn demo_conn_api conn = ''azula''"
proof -
  have "pk_from_str demo_keys (pk_to_string demo_keys demo_key) = Inr demo_key"
    using demo_pk_text by (simp add: pk_text_law_def)
  then obtain conn w' where dial: "IrohEndpoint_connect_by_id demo_keys demo_ep_api demo_ep
      (pk_to_string demo_keys demo_key) ''azula'' demo_world = Some (Inr conn, w')"
    by (simp add: IrohEndpoint_connect_by_id_def demo_ep_api_def await_try_def await_map_def)
  have "utf8_valid ''azula''" by (rule utf8_valid_ascii) simp
  from dialed_alpn_reported [OF demo_ep_laws(4) this, of demo_addr_api] dial show ?thesis by blast
qed

section \<open>What is known of a peer\<close>






section \<open>Status snapshots\<close>

lemma find_split:
  "List.find P xs = Some x \<longleftrightarrow> (\<exists>us vs. xs = us @ x # vs \<and> P x \<and> list_all (\<lambda>u. \<not> P u) us)"
proof (induction xs)
  case (Cons a xs)
  have "(\<exists>us vs. a # xs = us @ x # vs \<and> P x \<and> list_all (\<lambda>u. \<not> P u) us) \<longleftrightarrow>
      a = x \<and> P x \<or> \<not> P a \<and> (\<exists>us vs. xs = us @ x # vs \<and> P x \<and> list_all (\<lambda>u. \<not> P u) us)"
    by (auto simp: Cons_eq_append_conv) (metis list.pred_inject(2))
  with Cons show ?case by auto
qed simp

text \<open>The home relay reported is the URL of the first relay that is connected, and absent
  exactly when none is; the bound sockets and the direct addresses are reported as texts
  that parse back to the addresses, in order.\<close>

lemma status_snapshots:
  assumes "list_all textual (ep_bound_sockets I (ie_inner ep) w)"
    and "list_all textual (addr_ip_addrs A (ep_addr E (ie_inner ep) w))"
    and "relays = ep_home_relay_status I (ie_inner ep) w"
  shows "(IrohEndpoint_home_relay A I ep w = None \<longleftrightarrow> list_all (\<lambda>r. \<not> rs_connected r) relays) \<and>
     (IrohEndpoint_home_relay A I ep w = Some u \<longrightarrow>
        (\<exists>before r after. relays = before @ r # after \<and> rs_connected r \<and> u = url_to_string A (rs_url r) \<and>
           list_all (\<lambda>r. \<not> rs_connected r) before)) \<and>
     collect_res SocketAddr_parse (IrohEndpoint_bound_sockets I ep w) = Inr (ep_bound_sockets I (ie_inner ep) w) \<and>
     collect_res SocketAddr_parse (IrohEndpoint_direct_addresses A E ep w) =
       Inr (addr_ip_addrs A (ep_addr E (ie_inner ep) w))"
proof -
  have "collect_res SocketAddr_parse (map SocketAddr_to_string socks) = Inr socks" if "list_all textual socks" for socks
    using that by (simp add: socket_text.collect_dec_enc list_all_iff)
  then show ?thesis
    using assms
    by (auto simp: IrohEndpoint_home_relay_def IrohEndpoint_bound_sockets_def IrohEndpoint_direct_addresses_def
        find_None_list_all find_split)
qed








section \<open>Strings across the FFI\<close>



end
